theory Spec2Isabelle
  imports Complex_Main "HOL-Library.Sublist" "HOL-Library.AList"
begin

text \<open>
  A model of the budget and analysis services of the team expense backend
  (\<open>backend/src/services\<close> and \<open>backend/src/models\<close>): the budget alerts with their
  flags, the budget forecast with its spending trend, the detection of duplicate and
  outlying expenses with the text similarity it uses, and the keyword fallback of the
  category suggestion. Database queries are inputs of the functions; their results
  arrive as arguments. The definitions come first, the properties proved of them follow.
\<close>

section \<open>Numbers\<close>

text \<open>
  JavaScript numbers are IEEE 754 doubles. A double is modelled by the rational number
  it denotes. \<open>double x\<close> is the double nearest to \<open>x\<close>: \<open>x\<close> is rounded to a multiple of
  \<open>2 ^ q\<close>, where \<open>q\<close> is 52 below the binary exponent of \<open>x\<close> and at least \<open>-1074\<close>, a tie
  going to the even multiple. An amount, a budget or a total of a document is given by
  its decimal value, and the number the source reads is the double of it; so is a
  literal of the source. Every arithmetic operation of the source on these numbers gives
  the double of its exact result. The exponent is not bounded above: a result beyond
  the largest double stays a finite number and does not become \<open>Infinity\<close>. Counts,
  lengths and indices are naturals, percentages and timestamps (milliseconds since the
  epoch) are integers. The confidences of the category suggestion are kept as decimals.
\<close>

definition round_even :: "rat \<Rightarrow> int" where
  "round_even x =
     (let f = \<lfloor>x\<rfloor>; d = x - rat_of_int f
      in if d < 1 / 2 then f else if d > 1 / 2 then f + 1 else if even f then f else f + 1)"

definition pow2 :: "int \<Rightarrow> rat" where
  "pow2 q = (if q \<ge> 0 then 2 ^ nat q else 1 / 2 ^ nat (- q))"

text \<open>The number of binary digits of a positive integer.\<close>

function bits :: "int \<Rightarrow> int" where
  "bits n = (if n \<le> 0 then 0 else 1 + bits (n div 2))"
  by auto
termination by (relation "measure nat") auto

declare bits.simps [simp del]

text \<open>The binary exponent of a positive rational \<open>x\<close>: \<open>2 ^ ilog2 x \<le> x < 2 ^ (ilog2 x + 1)\<close>.\<close>

definition ilog2 :: "rat \<Rightarrow> int" where
  "ilog2 x =
     (let (a, b) = quotient_of x; d = bits a - bits b
      in if pow2 d \<le> x then d else d - 1)"

definition double :: "rat \<Rightarrow> rat" where
  "double x =
     (if x = 0 then 0
      else let q = max (- 1074) (ilog2 \<bar>x\<bar> - 52)
           in rat_of_int (round_even (x / pow2 q)) * pow2 q)"

text \<open>The four operations on doubles; a divisor is never 0 where the model divides.\<close>

definition js_add :: "rat \<Rightarrow> rat \<Rightarrow> rat" where
  "js_add a b = double (a + b)"

definition js_sub :: "rat \<Rightarrow> rat \<Rightarrow> rat" where
  "js_sub a b = double (a - b)"

definition js_mul :: "rat \<Rightarrow> rat \<Rightarrow> rat" where
  "js_mul a b = double (a * b)"

definition js_div :: "rat \<Rightarrow> rat \<Rightarrow> rat" where
  "js_div a b = double (a / b)"

text \<open>\<open>Math.round\<close> rounds a double to the nearest integer, a half going up.\<close>

definition Math_round :: "rat \<Rightarrow> int" where
  "Math_round x = \<lfloor>x + 1 / 2\<rfloor>"

section \<open>Team model (models/Team)\<close>

record alert_flags =
  warning :: bool
  critical :: bool

datatype member_role = manager | member

record team_member =
  member_name :: string
  member_email :: string
  member_role :: member_role
  member_active :: bool

text \<open>
  \<open>budget\<close> and \<open>totalSpent\<close> are the numbers as stored. An entry of \<open>members\<close> is
  \<open>None\<close> when the array of the document holds \<open>null\<close> at that place.
\<close>

record team =
  team_id :: nat
  name :: string
  budget :: rat
  members :: "team_member option list"
  totalSpent :: rat
  alertsSent :: alert_flags
  isActive :: bool

text \<open>The virtual \<open>budgetUtilization\<close>: the rounded percentage, 0 without a positive budget.\<close>

definition budgetUtilization :: "team \<Rightarrow> int" where
  "budgetUtilization t =
     (if double (budget t) > 0
      then Math_round (js_mul (js_div (double (totalSpent t)) (double (budget t))) 100)
      else 0)"

definition budgetStatus :: "team \<Rightarrow> string" where
  "budgetStatus t =
     (let utilization = budgetUtilization t in
      if utilization \<ge> 100 then ''over-budget''
      else if utilization \<ge> 80 then ''warning''
      else if utilization \<ge> 60 then ''moderate''
      else ''good'')"

text \<open>
  \<open>updateTotalSpent\<close> stores the aggregate of the team's approved, active expenses
  (the argument \<open>approved\<close>; 0 when there is none) and saves; the pre-save hook lifts a
  negative total to 0.
\<close>

definition updateTotalSpent :: "rat \<Rightarrow> team \<Rightarrow> team" where
  "updateTotalSpent approved t = t\<lparr>totalSpent := (if approved < 0 then 0 else approved)\<rparr>"

section \<open>Email service (services/emailService.js)\<close>

datatype alert_type = Warning | Critical

datatype provider = console_log | brevo | backup

record send_result =
  success :: bool
  sent_by :: "provider option"

text \<open>
  The state of the service and what its two transports do with one message:
  \<open>brevoDelivers\<close> is false when \<open>sendWithBrevo\<close> throws, \<open>backupDelivers\<close> is false
  when \<open>sendWithBackup\<close> throws.
\<close>

record email_env =
  isBrevoConfigured :: bool
  isBackupConfigured :: bool
  brevoDelivers :: bool
  backupDelivers :: bool

text \<open>
  \<open>sendBudgetAlert\<close> wraps its whole body in \<open>try\<close>/\<open>catch\<close>. Without any configured
  service it logs and returns success. Otherwise it prepares the message, which reads a
  field of every entry of \<open>team.members\<close> (\<open>getTeamManagerEmails\<close>) and throws on a \<open>null\<close>
  entry; it then tries Brevo, whose failure falls through to the backup transport. Any
  exception lands in the \<open>catch\<close> handler, which calls \<open>logEmailToConsole\<close> and returns
  \<open>{success: false}\<close>; \<open>logEmailToConsole\<close> reads the email of every entry of
  \<open>team.members\<close> and throws on a \<open>null\<close> entry, and then the promise rejects. The result is
  \<open>Inr r\<close> when the promise resolves with \<open>r\<close> and \<open>Inl msg\<close> when it rejects.
\<close>

definition sendBudgetAlert ::
  "email_env \<Rightarrow> team \<Rightarrow> alert_type \<Rightarrow> int \<Rightarrow> string + send_result" where
  "sendBudgetAlert e t alertType utilization =
     (if \<not> isBrevoConfigured e \<and> \<not> isBackupConfigured e
      then Inr \<lparr>success = True, sent_by = Some console_log\<rparr>
      else if None \<in> set (members t)
      then Inl ''TypeError''
      else if isBrevoConfigured e \<and> brevoDelivers e
      then Inr \<lparr>success = True, sent_by = Some brevo\<rparr>
      else if backupDelivers e
      then Inr \<lparr>success = True, sent_by = Some backup\<rparr>
      else Inr \<lparr>success = False, sent_by = None\<rparr>)"

section \<open>Budget alerts (BudgetService.checkBudgetAlerts)\<close>

record budget_config =
  WARNING_THRESHOLD :: int
  CRITICAL_THRESHOLD :: int

text \<open>
  The constructor reads \<open>parseInt(env) || default\<close>: an unset or unparsable variable
  (\<open>None\<close>) and the value 0 both give the default.
\<close>

definition BudgetService :: "int option \<Rightarrow> int option \<Rightarrow> budget_config" where
  "BudgetService w c =
     \<lparr>WARNING_THRESHOLD = (case w of None \<Rightarrow> 80 | Some n \<Rightarrow> if n = 0 then 80 else n),
      CRITICAL_THRESHOLD = (case c of None \<Rightarrow> 100 | Some n \<Rightarrow> if n = 0 then 100 else n)\<rparr>"

record alert =
  alert_kind :: alert_type
  threshold :: int
  utilization :: int

record team_summary =
  sum_id :: nat
  sum_name :: string
  sum_budget :: rat
  sum_totalSpent :: rat
  sum_budgetUtilization :: int
  sum_budgetStatus :: string

datatype check_result =
  CheckFailed string
| CheckOk team_summary "alert list"

text \<open>
  A notifier is what \<open>await emailService.sendBudgetAlert(...)\<close> gives the caller.
  \<open>checkBudgetAlerts\<close> sets the flag and records the alert after the \<open>await\<close>, inside the
  \<open>try\<close>; its \<open>catch\<close> only logs, so a rejected promise leaves the flag as it was.
\<close>

type_synonym notifier = "team \<Rightarrow> alert_type \<Rightarrow> int \<Rightarrow> string + send_result"

definition emailService :: "email_env \<Rightarrow> notifier" where
  "emailService e = (\<lambda>t alertType u. sendBudgetAlert e t alertType u)"

text \<open>
  One evaluation. \<open>found\<close> is the result of \<open>Team.findById\<close>, \<open>approved\<close> the aggregate read
  by \<open>updateTotalSpent\<close>; the first component of the result is the team as persisted
  afterwards. The database calls are taken to succeed: the outer \<open>catch\<close>, which turns
  their exceptions into a failure object, has no branch here.
\<close>

definition checkBudgetAlerts ::
  "budget_config \<Rightarrow> notifier \<Rightarrow> rat \<Rightarrow> team option \<Rightarrow> team option \<times> check_result" where
  "checkBudgetAlerts cfg send approved found =
     (case found of
        None \<Rightarrow> (None, CheckFailed ''Team not found'')
      | Some team0 \<Rightarrow>
          if \<not> isActive team0 then (Some team0, CheckFailed ''Team not found'')
          else
            let team1 = updateTotalSpent approved team0;
                u = budgetUtilization team1;
                flags = alertsSent team1;
                (flags1, alerts) =
                  (if u \<ge> CRITICAL_THRESHOLD cfg \<and> \<not> critical flags then
                     (case send team1 Critical u of
                        Inr r \<Rightarrow> (flags\<lparr>critical := True\<rparr>,
                                  [\<lparr>alert_kind = Critical, threshold = CRITICAL_THRESHOLD cfg,
                                    utilization = u\<rparr>])
                      | Inl err \<Rightarrow> (flags, []))
                   else if u \<ge> WARNING_THRESHOLD cfg \<and> \<not> warning flags then
                     (case send team1 Warning u of
                        Inr r \<Rightarrow> (flags\<lparr>warning := True\<rparr>,
                                  [\<lparr>alert_kind = Warning, threshold = WARNING_THRESHOLD cfg,
                                    utilization = u\<rparr>])
                      | Inl err \<Rightarrow> (flags, []))
                   else (flags, []));
                flags2 = (if u < WARNING_THRESHOLD cfg
                          then flags1\<lparr>warning := False, critical := False\<rparr> else flags1);
                team2 = team1\<lparr>alertsSent := flags2\<rparr>
            in (Some team2,
                CheckOk \<lparr>sum_id = team_id team2, sum_name = name team2,
                         sum_budget = budget team2, sum_totalSpent = totalSpent team2,
                         sum_budgetUtilization = u, sum_budgetStatus = budgetStatus team2\<rparr>
                        alerts))"

text \<open>The alerts an evaluation reports (\<open>alertsSent\<close> of the result; none on failure).\<close>

fun alerts_of :: "check_result \<Rightarrow> alert list" where
  "alerts_of (CheckFailed msg) = []"
| "alerts_of (CheckOk s as) = as"

text \<open>
  Successive evaluations of one team: each entry of the list gives the notifier's
  behaviour and the approved total at that evaluation. The result is the persisted team
  and the alerts of each evaluation, in order.
\<close>

fun evaluations ::
  "budget_config \<Rightarrow> (notifier \<times> rat) list \<Rightarrow> team option \<Rightarrow> team option \<times> alert list list" where
  "evaluations cfg [] st = (st, [])"
| "evaluations cfg ((send, approved) # rest) st =
     (let (st1, r) = checkBudgetAlerts cfg send approved st;
          (st2, rs) = evaluations cfg rest st1
      in (st2, alerts_of r # rs))"

text \<open>
  The decision of one evaluation as a function of the utilization and the flags alone,
  and its iteration at a fixed utilization; \<open>checkBudgetAlerts\<close> is shown below to compute
  exactly this whenever the notifier's promise resolves.
\<close>

definition decide :: "budget_config \<Rightarrow> int \<Rightarrow> alert_flags \<Rightarrow> alert_flags \<times> alert list" where
  "decide cfg u flags =
     (let (flags1, events) =
        (if u \<ge> CRITICAL_THRESHOLD cfg \<and> \<not> critical flags then
           (flags\<lparr>critical := True\<rparr>,
            [\<lparr>alert_kind = Critical, threshold = CRITICAL_THRESHOLD cfg, utilization = u\<rparr>])
         else if u \<ge> WARNING_THRESHOLD cfg \<and> \<not> warning flags then
           (flags\<lparr>warning := True\<rparr>,
            [\<lparr>alert_kind = Warning, threshold = WARNING_THRESHOLD cfg, utilization = u\<rparr>])
         else (flags, []))
      in (if u < WARNING_THRESHOLD cfg then flags1\<lparr>warning := False, critical := False\<rparr>
          else flags1,
          events))"

fun decide_all :: "budget_config \<Rightarrow> int \<Rightarrow> alert_flags \<Rightarrow> nat \<Rightarrow> alert list list" where
  "decide_all cfg u flags 0 = []"
| "decide_all cfg u flags (Suc n) =
     (let (flags1, events) = decide cfg u flags in events # decide_all cfg u flags1 n)"

text \<open>
  Example data: a team with a budget of 100 and one manager, the same team with a
  \<open>null\<close> entry in its member list, and a mail setup whose only transport fails.
\<close>

definition team0 :: team where
  "team0 = \<lparr>team_id = 1, name = ''Engineering'', budget = 100,
            members = [Some \<lparr>member_name = ''Ada'', member_email = ''ada@example.com'',
                             member_role = manager, member_active = True\<rparr>],
            totalSpent = 0,
            alertsSent = \<lparr>warning = False, critical = False\<rparr>, isActive = True\<rparr>"

definition team_null :: team where
  "team_null = team0\<lparr>members := members team0 @ [None]\<rparr>"

definition smtp_down :: email_env where
  "smtp_down = \<lparr>isBrevoConfigured = False, isBackupConfigured = True,
                brevoDelivers = False, backupDelivers = False\<rparr>"

section \<open>Text similarity (AIService.calculateTextSimilarity)\<close>

text \<open>
  A string is the list of its code units. An assignment \<open>arr[j] = v\<close> overwrites the
  element at an index inside the array and extends the array when \<open>j\<close> is its length;
  the function below never writes beyond the length.
\<close>

definition arr_set :: "'b list \<Rightarrow> nat \<Rightarrow> 'b \<Rightarrow> 'b list" where
  "arr_set xs j v = (if j < length xs then xs[j := v] else xs @ [v])"

text \<open>\<open>for (let i = 0; i <= n; i++) matrix[i] = [i]\<close>\<close>

definition init_rows :: "nat \<Rightarrow> nat list list" where
  "init_rows n = fold (\<lambda>i matrix. arr_set matrix i [i]) [0..<Suc n] []"

text \<open>\<open>for (let j = 0; j <= m; j++) matrix[0][j] = j\<close>\<close>

definition init_cols :: "nat \<Rightarrow> nat list list \<Rightarrow> nat list list" where
  "init_cols m matrix0 =
     fold (\<lambda>j matrix. matrix[0 := arr_set (matrix ! 0) j j]) [0..<Suc m] matrix0"

text \<open>The body of the inner loop: the cell \<open>matrix[i][j]\<close>, for \<open>1 \<le> i\<close> and \<open>1 \<le> j\<close>.\<close>

definition fill_cell :: "'a list \<Rightarrow> 'a list \<Rightarrow> nat \<Rightarrow> nat \<Rightarrow> nat list list \<Rightarrow> nat list list" where
  "fill_cell str1 str2 i j matrix =
     (let cost = (if str1 ! (j - 1) = str2 ! (i - 1) then 0 else 1 :: nat);
          v = min (min (matrix ! (i - 1) ! j + 1) (matrix ! i ! (j - 1) + 1))
                  (matrix ! (i - 1) ! (j - 1) + cost)
      in matrix[i := arr_set (matrix ! i) j v])"

definition fill_matrix :: "'a list \<Rightarrow> 'a list \<Rightarrow> nat list list \<Rightarrow> nat list list" where
  "fill_matrix str1 str2 matrix0 =
     fold (\<lambda>i matrix. fold (fill_cell str1 str2 i) [1..<Suc (length str1)] matrix)
          [1..<Suc (length str2)] matrix0"

definition calculateTextSimilarity :: "'a list \<Rightarrow> 'a list \<Rightarrow> rat" where
  "calculateTextSimilarity str1 str2 =
     (let n = length str2; m = length str1 in
      if n = 0 then (if m = 0 then 1 else 0)
      else if m = 0 then 0
      else
        let matrix = fill_matrix str1 str2 (init_cols m (init_rows n));
            distance = matrix ! n ! m;
            maxLength = max (length str1) (length str2)
        in js_sub 1 (js_div (rat_of_nat distance) (rat_of_nat maxLength)))"

text \<open>
  The recurrence the matrix is filled by: \<open>edit_dist str1 str2 i j\<close> is the value the loops
  store in \<open>matrix[i][j]\<close>, the edit distance between the first \<open>j\<close> units of \<open>str1\<close>
  and the first \<open>i\<close> units of \<open>str2\<close>.
\<close>

fun edit_dist :: "'a list \<Rightarrow> 'a list \<Rightarrow> nat \<Rightarrow> nat \<Rightarrow> nat" where
  "edit_dist str1 str2 0 j = j"
| "edit_dist str1 str2 (Suc i) 0 = Suc i"
| "edit_dist str1 str2 (Suc i) (Suc j) =
     min (min (edit_dist str1 str2 i (Suc j) + 1) (edit_dist str1 str2 (Suc i) j + 1))
         (edit_dist str1 str2 i j + (if str1 ! j = str2 ! i then 0 else 1))"

text \<open>
  The state of the matrix while row \<open>k\<close> is being filled: the rows above are complete,
  row \<open>k\<close> holds its first \<open>j + 1\<close> cells, the rows below hold their first cell.
\<close>

definition filled :: "'a list \<Rightarrow> 'a list \<Rightarrow> nat \<Rightarrow> nat \<Rightarrow> nat list list \<Rightarrow> bool" where
  "filled str1 str2 k j matrix \<longleftrightarrow>
     length matrix = Suc (length str2)
     \<and> (\<forall>i < k. matrix ! i = map (edit_dist str1 str2 i) [0..<Suc (length str1)])
     \<and> matrix ! k = map (edit_dist str1 str2 k) [0..<Suc j]
     \<and> (\<forall>i. k < i \<and> i \<le> length str2 \<longrightarrow> matrix ! i = [i])"
section \<open>Expenses and strings\<close>

text \<open>
  The fields of an expense document the analyses read. \<open>amount\<close> is the decimal value
  of the amount; the number the code reads from the document is \<open>double (amount e)\<close>.
  \<open>description\<close> is the list of the code units of the string, of any type \<open>'c\<close>. \<open>date\<close>
  is the timestamp in milliseconds since the epoch, the value a \<open>Date\<close> takes in
  arithmetic; a valid timestamp is an integer of magnitude at most \<open>8.64 * 10 ^ 15\<close> and
  so a double.
\<close>

record 'c expense =
  expense_id :: nat
  amount :: rat
  description :: "'c list"
  date :: int

text \<open>
  \<open>toLowerCase\<close> on strings of 8-bit characters in the ASCII range: the letters A to Z
  are mapped to a to z, every other character is kept.
\<close>

definition lower_char :: "char \<Rightarrow> char" where
  "lower_char c =
     (let n = (of_char c :: nat) in if 65 \<le> n \<and> n \<le> 90 then char_of (n + 32) else c)"

definition toLowerCase :: "string \<Rightarrow> string" where
  "toLowerCase s = map lower_char s"

section \<open>Suspicious expenses (AIService.detectSuspiciousExpenses)\<close>

datatype finding_type = potential_duplicate | high_amount_outlier

text \<open>A finding; its \<open>reason\<close>, a message formatted from the amounts, is left out.\<close>

record finding =
  f_type :: finding_type
  f_expenses :: "nat list"
  f_confidence :: rat

text \<open>
  The body of the two nested loops, for the pair \<open>exp1 = expenses[i]\<close>, \<open>exp2 = expenses[j]\<close>.
  The built-in \<open>String.prototype.toLowerCase\<close>, which also maps letters outside the ASCII
  range, is the parameter \<open>lower\<close>. \<open>Math.abs\<close> is exact on doubles.
\<close>

definition check_pair :: "('c list \<Rightarrow> 'c list) \<Rightarrow> 'c expense \<Rightarrow> 'c expense \<Rightarrow> finding list" where
  "check_pair lower exp1 exp2 =
     (if \<bar>js_sub (double (amount exp1)) (double (amount exp2))\<bar> < double (1 / 100) then
        let timeDiff = js_div \<bar>js_sub (rat_of_int (date exp1)) (rat_of_int (date exp2))\<bar>
                              (1000 * 60 * 60 * 24);
            descSimilarity = calculateTextSimilarity (lower (description exp1))
                                                     (lower (description exp2))
        in if timeDiff \<le> 7 \<and> descSimilarity > double (7 / 10)
           then [\<lparr>f_type = potential_duplicate,
                  f_expenses = [expense_id exp1, expense_id exp2],
                  f_confidence = descSimilarity\<rparr>]
           else []
      else [])"

text \<open>The inner loop \<open>for (j = i + 1; ...)\<close>: \<open>exp1\<close> against the expenses after it.\<close>

fun check_after :: "('c list \<Rightarrow> 'c list) \<Rightarrow> 'c expense \<Rightarrow> 'c expense list \<Rightarrow> finding list" where
  "check_after lower exp1 [] = []"
| "check_after lower exp1 (exp2 # rest) = check_pair lower exp1 exp2 @ check_after lower exp1 rest"

text \<open>The outer loop \<open>for (i = 0; ...)\<close>.\<close>

fun check_duplicates :: "('c list \<Rightarrow> 'c list) \<Rightarrow> 'c expense list \<Rightarrow> finding list" where
  "check_duplicates lower [] = []"
| "check_duplicates lower (exp1 # rest) = check_after lower exp1 rest @ check_duplicates lower rest"

text \<open>
  The check for unusually high amounts; \<open>sort\<close> is the numeric sort \<open>(a, b) => a - b\<close>.
  The products of the length with 0.75 and 0.25 are exact in doubles, and so is the
  literal 1.5.
\<close>

definition check_outliers :: "'c expense list \<Rightarrow> finding list" where
  "check_outliers expenses =
     (if length expenses > 5 then
        let amounts = sort (map (\<lambda>e. double (amount e)) expenses);
            q3 = amounts ! nat \<lfloor>rat_of_nat (length amounts) * (75 / 100)\<rfloor>;
            q1 = amounts ! nat \<lfloor>rat_of_nat (length amounts) * (25 / 100)\<rfloor>;
            iqr = js_sub q3 q1;
            outlierThreshold = js_add q3 (js_mul (15 / 10) iqr)
        in map (\<lambda>expense. \<lparr>f_type = high_amount_outlier,
                             f_expenses = [expense_id expense],
                             f_confidence = double (7 / 10)\<rparr>)
               (filter (\<lambda>expense. double (amount expense) > outlierThreshold) expenses)
      else [])"

datatype detect_result =
  DetectFailed string
| Detected nat nat "finding list"

text \<open>
  \<open>found\<close> is the result of the query for the team's active expenses in the lookback
  window (\<open>Inl\<close> when it throws). \<open>Detected\<close> carries \<open>totalExpensesChecked\<close>,
  \<open>suspiciousCount\<close> and the first ten findings.
\<close>

definition detectSuspiciousExpenses ::
  "('c list \<Rightarrow> 'c list) \<Rightarrow> string + 'c expense list \<Rightarrow> detect_result" where
  "detectSuspiciousExpenses lower found =
     (case found of
        Inl msg \<Rightarrow> DetectFailed msg
      | Inr expenses \<Rightarrow>
          let suspicious = check_duplicates lower expenses @ check_outliers expenses
          in Detected (length expenses) (length suspicious) (take 10 suspicious))"

text \<open>
  Example data for the two detections: two lunches; two taxi rides one cent apart; six
  expenses with one of 500; six expenses of which the largest, 2.90, equals
  \<open>1.22 + 1.5 * (1.22 - 0.10)\<close>; and the amounts 0.1, 0.1, 0.1, 0.7, 0.7, 1.6.
\<close>

definition lunch1 :: "char expense" where
  "lunch1 = \<lparr>expense_id = 1, amount = 50, description = ''Team lunch'',
             date = 1700000000000\<rparr>"

definition lunch2 :: "char expense" where
  "lunch2 = \<lparr>expense_id = 2, amount = 50, description = ''Team Lunch '',
             date = 1700000000000 - 2 * 86400000\<rparr>"

definition taxi1 :: "char expense" where
  "taxi1 = \<lparr>expense_id = 1, amount = 50, description = ''Taxi'', date = 1700000000000\<rparr>"

definition taxi2 :: "char expense" where
  "taxi2 = \<lparr>expense_id = 2, amount = 5001 / 100, description = ''Taxi'',
            date = 1700000000000\<rparr>"

definition six_expenses :: "char expense list" where
  "six_expenses =
     [\<lparr>expense_id = 1, amount = 10, description = ''Paper'', date = 1700000000000\<rparr>,
      \<lparr>expense_id = 2, amount = 12, description = ''Taxi to airport'', date = 1699900000000\<rparr>,
      \<lparr>expense_id = 3, amount = 11, description = ''Coffee'', date = 1699800000000\<rparr>,
      \<lparr>expense_id = 4, amount = 13, description = ''Printer ink'', date = 1699700000000\<rparr>,
      \<lparr>expense_id = 5, amount = 9, description = ''Notebook'', date = 1699600000000\<rparr>,
      \<lparr>expense_id = 6, amount = 500, description = ''Conference fee'', date = 1699500000000\<rparr>]"

definition with_amounts :: "rat list \<Rightarrow> char expense list" where
  "with_amounts as = map2 (\<lambda>e a. e\<lparr>amount := a\<rparr>) six_expenses as"

definition at_threshold :: "char expense list" where
  "at_threshold = with_amounts [1 / 10, 1 / 10, 1 / 10, 122 / 100, 122 / 100, 29 / 10]"

definition near_threshold :: "char expense list" where
  "near_threshold = with_amounts [1 / 10, 1 / 10, 1 / 10, 7 / 10, 7 / 10, 16 / 10]"

section \<open>Category suggestion (AIService.suggestCategory)\<close>

definition categories :: "string list" where
  "categories = [''travel'', ''food'', ''supplies'', ''software'',
                 ''hardware'', ''training'', ''entertainment'', ''other'']"

text \<open>The keyword table, in the order \<open>Object.entries\<close> lists it: the order of declaration.\<close>

definition categoryKeywords :: "(string \<times> string list) list" where
  "categoryKeywords =
     [(''travel'', [''flight'', ''hotel'', ''uber'', ''taxi'', ''gas'', ''mileage'', ''rental'',
                    ''airbnb'', ''trip'', ''travel'']),
      (''food'', [''restaurant'', ''lunch'', ''dinner'', ''coffee'', ''meal'', ''catering'',
                  ''starbucks'', ''food'', ''eat'']),
      (''supplies'', [''paper'', ''pen'', ''office'', ''supplies'', ''stationery'', ''printer'',
                      ''ink'', ''materials'']),
      (''software'', [''subscription'', ''license'', ''saas'', ''software'', ''app'', ''service'',
                      ''tool'', ''platform'']),
      (''hardware'', [''computer'', ''laptop'', ''mouse'', ''keyboard'', ''monitor'', ''device'',
                      ''equipment'', ''hardware'']),
      (''training'', [''training'', ''course'', ''conference'', ''workshop'', ''certification'',
                      ''learning'', ''education'']),
      (''entertainment'', [''entertainment'', ''client'', ''team building'', ''event'', ''party'',
                           ''celebration''])]"

text \<open>\<open>desc.includes(keyword)\<close>: the keyword occurs in \<open>desc\<close> as a contiguous substring.\<close>

fun str_includes :: "string \<Rightarrow> string \<Rightarrow> bool" where
  "str_includes [] keyword = (keyword = [])"
| "str_includes (c # cs) keyword = (prefix keyword (c # cs) \<or> str_includes cs keyword)"

text \<open>\<open>matches.join(', ')\<close>\<close>

fun join :: "string \<Rightarrow> string list \<Rightarrow> string" where
  "join sep [] = []"
| "join sep [x] = x"
| "join sep (x # y # ys) = x @ sep @ join sep (y # ys)"

record suggestion =
  category :: string
  confidence :: rat
  reasoning :: string

text \<open>
  The body of the loop over the keyword table. In this section a confidence is the
  decimal number the source writes or sums; the double the source holds for a confidence
  of the keyword scorer is the double of that decimal, and these doubles compare as the
  decimals do (\<open>confidence_in_doubles\<close> and \<open>confidences_ordered_in_doubles\<close> below).
\<close>

definition score_category :: "string \<Rightarrow> string \<times> string list \<Rightarrow> suggestion \<Rightarrow> suggestion" where
  "score_category desc entry bestMatch =
     (let matches = filter (\<lambda>keyword. str_includes desc keyword) (snd entry) in
      if length matches > 0 then
        let conf = min (8 / 10) (3 / 10 + rat_of_nat (length matches) * (2 / 10)) in
        if conf > confidence bestMatch
        then \<lparr>category = fst entry, confidence = conf,
              reasoning = ''Matched keywords: '' @ join '', '' matches\<rparr>
        else bestMatch
      else bestMatch)"

definition fallback_with :: "(string \<times> string list) list \<Rightarrow> string \<Rightarrow> suggestion" where
  "fallback_with table descr =
     (let desc = toLowerCase descr in
      fold (score_category desc) table
        \<lparr>category = ''other'', confidence = 1 / 10, reasoning = ''No clear keywords found''\<rparr>)"

definition fallbackCategorySuggestion :: "string \<Rightarrow> suggestion" where
  "fallbackCategorySuggestion descr = fallback_with categoryKeywords descr"

text \<open>
  What the classifier call gives: it throws (\<open>Rejected\<close>), its content is not JSON
  (\<open>NonJson\<close>), or it is a JSON object with the three fields.
\<close>

datatype ai_response = Rejected | NonJson | Json string rat string

text \<open>\<open>openai\<close> is \<open>None\<close> when no classifier is configured.\<close>

definition suggestCategory :: "ai_response option \<Rightarrow> string \<Rightarrow> suggestion" where
  \<open>suggestCategory openai descr =
     (case openai of
        None \<Rightarrow> fallbackCategorySuggestion descr
      | Some Rejected \<Rightarrow> fallbackCategorySuggestion descr
      | Some NonJson \<Rightarrow>
          (let result = fallbackCategorySuggestion descr
           in result\<lparr>reasoning := reasoning result @ '' (AI returned non-JSON)''\<rparr>)
      | Some (Json cat conf why) \<Rightarrow>
          (let result = \<lparr>category = cat, confidence = conf, reasoning = why\<rparr>;
               result1 = (if cat \<notin> set categories
                          then \<lparr>category = ''other'', confidence = max (1 / 10) (conf - 3 / 10),
                                reasoning = why @ '' (Category corrected to "other")''\<rparr>
                          else result)
           in result1\<lparr>confidence := max 0 (min 1 (confidence result1))\<rparr>))\<close>

text \<open>
  The number of keywords of a table entry that occur in the lower-cased description, and
  the confidence the scorer derives from a number of matches.
\<close>

definition matches_of :: "string \<Rightarrow> string \<times> string list \<Rightarrow> nat" where
  "matches_of descr entry =
     length (filter (\<lambda>keyword. str_includes (toLowerCase descr) keyword) (snd entry))"

definition match_confidence :: "nat \<Rightarrow> rat" where
  "match_confidence k = min (8 / 10) (3 / 10 + rat_of_nat k * (2 / 10))"

section \<open>Budget forecast (BudgetService.calculateBudgetForecast)\<close>




datatype trend_direction = no_data | insufficient_data | stable | increasing | decreasing

text \<open>The strength is the number 0 for insufficient data and a word otherwise.\<close>

datatype trend_strength = zero_strength | low | medium | high

















text \<open>
  The trend as the specification words it (section 4.2), for comparison with
  \<open>calculateSpendingTrend\<close>: the averages of the two halves of the daily totals, the
  percentage by which the second exceeds the first, the direction by the 10 percent
  rule and the strength by the cutoffs at 50 and 20 percent, all in exact arithmetic.
\<close>

definition half_averages :: "rat list \<Rightarrow> rat \<times> rat" where
  "half_averages totals =
     (let h = length totals div 2
      in (sum_list (take h totals) / rat_of_nat h,
          sum_list (drop h totals) / rat_of_nat (length totals - h)))"

definition percent_change :: "rat list \<Rightarrow> rat" where
  "percent_change totals = (let (a1, a2) = half_averages totals in (a2 - a1) / a1 * 100)"

definition spec_direction :: "rat list \<Rightarrow> trend_direction" where
  "spec_direction totals =
     (if length totals < 3 then insufficient_data
      else if percent_change totals > 10 then increasing
      else if percent_change totals < - 10 then decreasing
      else stable)"








section \<open>Properties of the rounding to doubles\<close>

lemma round_even_ge_floor: "\<lfloor>x\<rfloor> \<le> round_even x"
  by (simp add: round_even_def Let_def)

lemma round_even_le_ceiling: "round_even x \<le> \<lceil>x\<rceil>"
proof (cases "x = rat_of_int \<lfloor>x\<rfloor>")
  case True
  then have "x - rat_of_int \<lfloor>x\<rfloor> = 0" by simp
  then have "round_even x = \<lfloor>x\<rfloor>" by (simp add: round_even_def Let_def)
  then show ?thesis by (simp add: floor_le_ceiling)
next
  case False
  then have "\<lceil>x\<rceil> = \<lfloor>x\<rfloor> + 1" by (simp add: ceiling_altdef)
  then show ?thesis by (simp add: round_even_def Let_def)
qed

lemma pow2_pos: "0 < pow2 q"
  by (simp add: pow2_def)

lemma bits_nonneg: "0 \<le> bits n"
  by (induction n rule: bits.induct) (simp add: bits.simps)

lemma bits_mono: "m \<le> n \<Longrightarrow> bits m \<le> bits n"
proof (induction n arbitrary: m rule: bits.induct)
  case (1 n)
  show ?case
  proof (cases "n \<le> 0")
    case True
    with 1(2) show ?thesis by (simp add: bits.simps)
  next
    case False
    show ?thesis
    proof (cases "m \<le> 0")
      case True
      then have "bits m = 0" by (simp add: bits.simps)
      then show ?thesis by (simp add: bits_nonneg)
    next
      case m: False
      have "m div 2 \<le> n div 2" using 1(2) by (simp add: zdiv_mono1)
      then have "bits (m div 2) \<le> bits (n div 2)" using 1(1) False by simp
      then show ?thesis using False m by (simp add: bits.simps [of m] bits.simps [of n])
    qed
  qed
qed

lemma ilog2_le_unit:
  assumes "0 < x" "x \<le> 1"
  shows "ilog2 x \<le> 0"
proof -
  obtain a b where q: "quotient_of x = (a, b)" by (cases "quotient_of x")
  have b: "0 < b" using q by (rule quotient_of_denom_pos)
  have x: "x = rat_of_int a / rat_of_int b" using q by (rule quotient_of_div)
  have "rat_of_int a \<le> rat_of_int b" using assms(2) b x by (simp add: field_simps)
  then have "a \<le> b" by simp
  then have "bits a - bits b \<le> 0" using bits_mono by simp
  then show ?thesis by (simp add: ilog2_def q Let_def)
qed

lemma double_nonneg:
  assumes "0 \<le> x"
  shows "0 \<le> double x"
proof (cases "x = 0")
  case True
  then show ?thesis by (simp add: double_def)
next
  case False
  define q where "q = max (- 1074) (ilog2 \<bar>x\<bar> - 52)"
  have "0 \<le> x / pow2 q" using assms pow2_pos [of q] by simp
  then have "0 \<le> \<lfloor>x / pow2 q\<rfloor>" by simp
  then have "0 \<le> round_even (x / pow2 q)"
    by (rule order_trans [OF _ round_even_ge_floor])
  then have "0 \<le> rat_of_int (round_even (x / pow2 q)) * pow2 q"
    using pow2_pos [of q] by simp
  then show ?thesis using False by (simp add: double_def q_def Let_def)
qed

lemma double_le_one:
  assumes "0 \<le> x" "x \<le> 1"
  shows "double x \<le> 1"
proof (cases "x = 0")
  case True
  then show ?thesis by (simp add: double_def)
next
  case False
  then have pos: "0 < x" using assms(1) by simp
  define q where "q = max (- 1074) (ilog2 \<bar>x\<bar> - 52)"
  have "ilog2 \<bar>x\<bar> \<le> 0" using ilog2_le_unit [OF pos assms(2)] pos by simp
  then have q: "q \<le> 0" by (simp add: q_def)
  define N :: int where "N = 2 ^ nat (- q)"
  have inv: "1 / pow2 q = rat_of_int N"
    using q by (auto simp add: pow2_def N_def)
  have "x / pow2 q \<le> 1 / pow2 q"
    using assms(2) pow2_pos [of q] by (simp add: divide_right_mono)
  then have "x / pow2 q \<le> rat_of_int N" using inv by simp
  then have "\<lceil>x / pow2 q\<rceil> \<le> N" by (simp add: ceiling_le_iff)
  then have "round_even (x / pow2 q) \<le> N"
    by (rule order_trans [OF round_even_le_ceiling])
  then have "rat_of_int (round_even (x / pow2 q)) \<le> rat_of_int N" by simp
  then have "rat_of_int (round_even (x / pow2 q)) * pow2 q \<le> rat_of_int N * pow2 q"
    using pow2_pos [of q] by (simp add: mult_right_mono)
  moreover have "rat_of_int N * pow2 q = 1"
    using inv pow2_pos [of q] by (simp add: field_simps)
  ultimately show ?thesis using False by (simp add: double_def q_def Let_def)
qed

lemma double_0: "double 0 = 0" by (simp add: double_def)
lemma double_1: "double 1 = 1" by code_simp

text \<open>Rounding to a double is monotone and commutes with the sign.\<close>

lemma pow2_powi: "pow2 q = 2 powi q"
  by (simp add: pow2_def power_int_def field_simps)

lemma pow2_add: "pow2 (p + q) = pow2 p * pow2 q"
  by (simp add: pow2_powi power_int_add)

lemma pow2_mono: "p \<le> q \<Longrightarrow> pow2 p \<le> pow2 q"
  by (simp add: pow2_powi power_int_increasing)

lemma pow2_nat: "0 \<le> q \<Longrightarrow> pow2 q = rat_of_int (2 ^ nat q)"
  by (simp add: pow2_def)

lemma bits_bounds:
  "0 < n \<Longrightarrow> 0 < bits n \<and> 2 ^ nat (bits n - 1) \<le> n \<and> n < 2 ^ nat (bits n)"
proof (induction n rule: bits.induct)
  case (1 n)
  show ?case
  proof (cases "n = 1")
    case True
    have "bits 1 = 1" by (simp add: bits.simps [of 1] bits.simps [of 0])
    then show ?thesis using True by simp
  next
    case False
    then have h: "0 < n div 2" using 1(2) by simp
    have n: "\<not> n \<le> 0" using 1(2) by simp
    from 1(1) [OF n h] have ih: "0 < bits (n div 2)"
      "2 ^ nat (bits (n div 2) - 1) \<le> n div 2" "n div 2 < 2 ^ nat (bits (n div 2))"
      by simp_all
    have b: "bits n = 1 + bits (n div 2)" using n by (simp add: bits.simps [of n])
    have e1: "nat (bits n - 1) = Suc (nat (bits (n div 2) - 1))" using ih(1) b by simp
    have e2: "nat (bits n) = Suc (nat (bits (n div 2)))" using ih(1) b by simp
    have "2 * 2 ^ nat (bits (n div 2) - 1) \<le> n" using ih(2) by simp
    moreover have "n < 2 * 2 ^ nat (bits (n div 2))" using ih(3) by simp
    ultimately show ?thesis using ih(1) b unfolding e1 e2 by simp
  qed
qed

lemma bits_pow2:
  assumes "0 < n"
  shows "pow2 (bits n - 1) \<le> rat_of_int n" "rat_of_int n < pow2 (bits n)"
proof -
  from bits_bounds [OF assms] have b: "0 < bits n" "2 ^ nat (bits n - 1) \<le> n"
    "n < 2 ^ nat (bits n)" by simp_all
  have "rat_of_int (2 ^ nat (bits n - 1)) \<le> rat_of_int n" using b(2) by (simp only: of_int_le_iff)
  then show "pow2 (bits n - 1) \<le> rat_of_int n" using b(1) by (simp add: pow2_nat)
  have "rat_of_int n < rat_of_int (2 ^ nat (bits n))" using b(3) by (simp only: of_int_less_iff)
  then show "rat_of_int n < pow2 (bits n)" using b(1) by (simp add: pow2_nat)
qed

lemma ilog2_bounds:
  assumes "0 < x"
  shows "pow2 (ilog2 x) \<le> x" "x < pow2 (ilog2 x + 1)"
proof -
  obtain a b where q: "quotient_of x = (a, b)" by (cases "quotient_of x")
  have b: "0 < b" using q by (rule quotient_of_denom_pos)
  have x: "x = rat_of_int a / rat_of_int b" using q by (rule quotient_of_div)
  have a: "0 < a" using assms b x by (simp add: zero_less_divide_iff)
  define d where "d = bits a - bits b"
  note ba = bits_pow2 [OF a] and bb = bits_pow2 [OF b]
  have rb: "0 < rat_of_int b" using b by simp
  have lo: "pow2 (d - 1) \<le> x"
  proof -
    have "pow2 (d - 1) * rat_of_int b \<le> pow2 (d - 1) * pow2 (bits b)"
      using bb(2) pow2_pos [of "d - 1"] by (simp add: mult_left_mono less_imp_le)
    also have "\<dots> = pow2 (bits a - 1)" by (simp add: pow2_add [symmetric] d_def)
    also have "\<dots> \<le> rat_of_int a" by (rule ba(1))
    finally show ?thesis using rb by (simp add: x pos_le_divide_eq)
  qed
  have hi: "x < pow2 (d + 1)"
  proof -
    have "rat_of_int a < pow2 (bits a)" by (rule ba(2))
    also have "\<dots> = pow2 (d + 1) * pow2 (bits b - 1)"
      by (simp add: pow2_add [symmetric] d_def)
    also have "\<dots> \<le> pow2 (d + 1) * rat_of_int b"
      using bb(1) pow2_pos [of "d + 1"] by (simp add: mult_left_mono less_imp_le)
    finally show ?thesis using rb by (simp add: x pos_divide_less_eq)
  qed
  have i: "ilog2 x = (if pow2 d \<le> x then d else d - 1)"
    by (simp add: ilog2_def q d_def Let_def)
  show "pow2 (ilog2 x) \<le> x" using lo by (simp add: i)
  show "x < pow2 (ilog2 x + 1)" using hi by (simp add: i not_le)
qed

lemma ilog2_mono:
  assumes "0 < x" "x \<le> y"
  shows "ilog2 x \<le> ilog2 y"
proof (rule ccontr)
  assume "\<not> ilog2 x \<le> ilog2 y"
  then have "ilog2 y + 1 \<le> ilog2 x" by simp
  then have "pow2 (ilog2 y + 1) \<le> pow2 (ilog2 x)" by (rule pow2_mono)
  moreover have "y < pow2 (ilog2 y + 1)" using assms by (intro ilog2_bounds) simp
  moreover have "pow2 (ilog2 x) \<le> x" using assms(1) by (rule ilog2_bounds)
  ultimately show False using assms(2) by simp
qed

lemma round_even_mono:
  assumes "x \<le> y"
  shows "round_even x \<le> round_even y"
proof (cases "\<lfloor>x\<rfloor> = \<lfloor>y\<rfloor>")
  case True
  have "x - rat_of_int \<lfloor>x\<rfloor> \<le> y - rat_of_int \<lfloor>x\<rfloor>" using assms by simp
  then show ?thesis unfolding round_even_def Let_def True [symmetric] by auto
next
  case False
  then have "\<lfloor>x\<rfloor> < \<lfloor>y\<rfloor>" using floor_mono [OF assms] by simp
  then have "\<lfloor>x\<rfloor> + 1 \<le> \<lfloor>y\<rfloor>" by simp
  moreover have "round_even x \<le> \<lfloor>x\<rfloor> + 1" by (simp add: round_even_def Let_def)
  ultimately show ?thesis using round_even_ge_floor [of y] by simp
qed

lemma round_even_of_int: "round_even (rat_of_int n) = n"
  by (simp add: round_even_def)

lemma round_even_minus: "round_even (- x) = - round_even x"
proof (cases "x = rat_of_int \<lfloor>x\<rfloor>")
  case True
  then obtain n where "x = rat_of_int n" ..
  then have "round_even x = n" "round_even (- x) = - n"
    using round_even_of_int [of n] round_even_of_int [of "- n"] by simp_all
  then show ?thesis by simp
next
  case False
  then have c: "\<lceil>x\<rceil> = \<lfloor>x\<rfloor> + 1" by (simp add: ceiling_altdef)
  have f: "\<lfloor>- x\<rfloor> = - \<lfloor>x\<rfloor> - 1" using c by (simp add: ceiling_def)
  define d where "d = x - rat_of_int \<lfloor>x\<rfloor>"
  define f where "f = \<lfloor>x\<rfloor>"
  have rx: "round_even x =
      (if d < 1 / 2 then f else if d > 1 / 2 then f + 1 else if even f then f else f + 1)"
    by (simp only: round_even_def Let_def d_def f_def)
  have "- x - rat_of_int \<lfloor>- x\<rfloor> = 1 - d" by (simp add: f d_def)
  then have rmx: "round_even (- x) =
      (if 1 - d < 1 / 2 then - f - 1 else if 1 - d > 1 / 2 then - f - 1 + 1
       else if even (- f - 1) then - f - 1 else - f - 1 + 1)"
    by (simp only: round_even_def Let_def f f_def)
  consider "d < 1 / 2" | "d > 1 / 2" | "d = 1 / 2" by fastforce
  then show ?thesis
  proof cases
    case 1
    then have "1 - d > 1 / 2" by simp
    then show ?thesis using 1 by (simp add: rx rmx)
  next
    case 2
    then have "1 - d < 1 / 2" by simp
    then show ?thesis using 2 by (simp add: rx rmx)
  next
    case 3
    then show ?thesis by (simp add: rx rmx)
  qed
qed


lemma double_minus: "double (- x) = - double x"
  by (simp add: double_def Let_def round_even_minus)

lemma double_pos_eq:
  "0 < x \<Longrightarrow> double x = rat_of_int (round_even (x / pow2 (max (- 1074) (ilog2 x - 52))))
       * pow2 (max (- 1074) (ilog2 x - 52))"
  by (simp add: double_def Let_def)

lemma double_mono_pos:
  assumes "0 < x" "x \<le> y"
  shows "double x \<le> double y"
proof -
  define p where "p = max (- 1074) (ilog2 x - 52)"
  define q where "q = max (- 1074) (ilog2 y - 52)"
  have y: "0 < y" using assms by simp
  have dx: "double x = rat_of_int (round_even (x / pow2 p)) * pow2 p"
    using double_pos_eq [OF assms(1)] by (simp add: p_def)
  have dy: "double y = rat_of_int (round_even (y / pow2 q)) * pow2 q"
    using double_pos_eq [OF y] by (simp add: q_def)
  have pq: "p \<le> q" using ilog2_mono [OF assms] by (simp add: p_def q_def)
  show ?thesis
  proof (cases "p = q")
    case True
    have "x / pow2 q \<le> y / pow2 q" using assms(2) pow2_pos [of q] by (simp add: divide_right_mono)
    then have "round_even (x / pow2 q) \<le> round_even (y / pow2 q)" by (rule round_even_mono)
    then have "rat_of_int (round_even (x / pow2 q)) \<le> rat_of_int (round_even (y / pow2 q))"
      by simp
    then show ?thesis unfolding dx dy True using pow2_pos [of q] by (simp add: mult_right_mono)
  next
    case False
    then have lt: "p < q" using pq by simp
    define L where "L = ilog2 y"
    have "- 1074 \<le> p" by (simp add: p_def)
    then have "- 1074 < q" using lt by simp
    then have q: "q = L - 52" unfolding q_def L_def by (simp add: max_def split: if_splits)
    have "ilog2 x - 52 \<le> p" by (simp add: p_def)
    then have lx: "ilog2 x + 1 \<le> L" using lt q by simp
    have xL: "x \<le> pow2 L"
      using ilog2_bounds(2) [OF assms(1)] pow2_mono [OF lx] by simp
    have Lp: "0 \<le> L - p" using lt q by simp
    have "x / pow2 p \<le> pow2 L / pow2 p" using xL pow2_pos [of p] by (simp add: divide_right_mono)
    also have "pow2 L / pow2 p = pow2 (L - p)"
      using pow2_add [of "L - p" p] pow2_pos [of p] by simp
    also have "\<dots> = rat_of_int (2 ^ nat (L - p))" using Lp by (rule pow2_nat)
    finally have "\<lceil>x / pow2 p\<rceil> \<le> 2 ^ nat (L - p)" by (simp add: ceiling_le_iff)
    then have "round_even (x / pow2 p) \<le> 2 ^ nat (L - p)"
      by (rule order_trans [OF round_even_le_ceiling])
    then have "rat_of_int (round_even (x / pow2 p)) \<le> rat_of_int (2 ^ nat (L - p))"
      by (simp only: of_int_le_iff)
    then have "rat_of_int (round_even (x / pow2 p)) \<le> pow2 (L - p)"
      using pow2_nat [OF Lp] by simp
    then have "double x \<le> pow2 (L - p) * pow2 p"
      unfolding dx using pow2_pos [of p] by (simp add: mult_right_mono)
    then have upper: "double x \<le> pow2 L" using pow2_add [of "L - p" p] by simp
    have "pow2 L \<le> y" unfolding L_def using y by (rule ilog2_bounds)
    then have "pow2 L / pow2 q \<le> y / pow2 q" using pow2_pos [of q] by (simp add: divide_right_mono)
    moreover have "pow2 L / pow2 q = pow2 52"
      using pow2_add [of 52 q] pow2_pos [of q] by (simp add: q)
    moreover have "pow2 52 = rat_of_int (2 ^ 52)" by (simp add: pow2_def)
    ultimately have "rat_of_int (2 ^ 52) \<le> y / pow2 q" by simp
    then have "2 ^ 52 \<le> \<lfloor>y / pow2 q\<rfloor>" by (simp only: le_floor_iff)
    then have "2 ^ 52 \<le> round_even (y / pow2 q)"
      by (rule order_trans [OF _ round_even_ge_floor])
    then have "rat_of_int (2 ^ 52) \<le> rat_of_int (round_even (y / pow2 q))"
      by (simp only: of_int_le_iff)
    then have "pow2 52 * pow2 q \<le> double y"
      unfolding dy using pow2_pos [of q] by (simp add: mult_right_mono pow2_def)
    then have "pow2 L \<le> double y" using pow2_add [of 52 q] by (simp add: q)
    then show ?thesis using upper by simp
  qed
qed

lemma double_mono:
  assumes "x \<le> y"
  shows "double x \<le> double y"
proof -
  consider "0 < x" | "x \<le> 0" "0 \<le> y" | "y < 0" by fastforce
  then show ?thesis
  proof cases
    case 1
    then show ?thesis using assms by (rule double_mono_pos)
  next
    case 2
    have "0 \<le> double (- x)" using 2(1) by (intro double_nonneg) simp
    then have "double x \<le> 0" by (simp add: double_minus)
    moreover have "0 \<le> double y" using 2(2) by (rule double_nonneg)
    ultimately show ?thesis by simp
  next
    case 3
    have "double (- y) \<le> double (- x)" using 3 assms by (intro double_mono_pos) simp_all
    then show ?thesis by (simp add: double_minus)
  qed
qed

lemma double_abs: "double \<bar>x\<bar> = \<bar>double x\<bar>"
proof (cases "0 \<le> x")
  case True
  then show ?thesis using double_nonneg [OF True] by simp
next
  case False
  then have "0 \<le> double (- x)" by (intro double_nonneg) simp
  then show ?thesis using False by (simp add: double_minus)
qed

section \<open>Properties of the budget alerts\<close>

text \<open>The utilizations of the examples, computed in double arithmetic.\<close>

lemma double_100_pos: "0 < double 100"
  by code_simp

lemma utilization_85: "Math_round (js_mul (js_div (double 85) (double 100)) 100) = 85"
  by code_simp

lemma utilization_90: "Math_round (js_mul (js_div (double 90) (double 100)) 100) = 90"
  by code_simp

lemma utilization_100: "Math_round (js_mul (js_div (double 100) (double 100)) 100) = 100"
  by code_simp

lemma utilization_70: "Math_round (js_mul (js_div (double 70) (double 100)) 100) = 70"
  by code_simp

text \<open>Without a \<open>null\<close> entry in the member list the promise of \<open>sendBudgetAlert\<close> resolves.\<close>

lemma sendBudgetAlert_resolves:
  "None \<notin> set (members t) \<Longrightarrow>
   sendBudgetAlert e t alertType u =
     Inr (if \<not> isBrevoConfigured e \<and> \<not> isBackupConfigured e
          then \<lparr>success = True, sent_by = Some console_log\<rparr>
          else if isBrevoConfigured e \<and> brevoDelivers e
          then \<lparr>success = True, sent_by = Some brevo\<rparr>
          else if backupDelivers e
          then \<lparr>success = True, sent_by = Some backup\<rparr>
          else \<lparr>success = False, sent_by = None\<rparr>)"
  by (simp add: sendBudgetAlert_def)

lemma checkBudgetAlerts_decide:
  assumes "isActive t" "None \<notin> set (members t)"
  shows "checkBudgetAlerts cfg (emailService e) a (Some t) =
     (let t1 = updateTotalSpent a t; u = budgetUtilization t1;
          (flags, events) = decide cfg u (alertsSent t);
          t2 = t1\<lparr>alertsSent := flags\<rparr>
      in (Some t2,
          CheckOk \<lparr>sum_id = team_id t2, sum_name = name t2, sum_budget = budget t2,
                   sum_totalSpent = totalSpent t2, sum_budgetUtilization = u,
                   sum_budgetStatus = budgetStatus t2\<rparr> events))"
  using assms
  by (simp add: checkBudgetAlerts_def emailService_def decide_def Let_def
      updateTotalSpent_def sendBudgetAlert_resolves)

lemma budgetUtilization_cong:
  "budget t' = budget t \<Longrightarrow>
   budgetUtilization (updateTotalSpent a t') = budgetUtilization (updateTotalSpent a t)"
  by (simp add: budgetUtilization_def updateTotalSpent_def)

lemma evaluations_decide_all:
  assumes "isActive t" "None \<notin> set (members t)"
    and "\<forall>(e, a) \<in> set xs. budgetUtilization (updateTotalSpent a t) = u"
  shows "snd (evaluations cfg (map (\<lambda>(e, a). (emailService e, a)) xs) (Some t)) =
         decide_all cfg u (alertsSent t) (length xs)"
  using assms
proof (induction xs arbitrary: t)
  case Nil
  then show ?case by simp
next
  case (Cons x xs)
  obtain e a where x: "x = (e, a)" by (cases x)
  define t1 where "t1 = updateTotalSpent a t"
  define f where "f = fst (decide cfg u (alertsSent t))"
  define t2 where "t2 = t1\<lparr>alertsSent := f\<rparr>"
  have u: "budgetUtilization t1 = u" using Cons.prems(3) x by (simp add: t1_def)
  have act: "isActive t2" using Cons.prems(1) by (simp add: t2_def t1_def updateTotalSpent_def)
  have mem: "None \<notin> set (members t2)"
    using Cons.prems(2) by (simp add: t2_def t1_def updateTotalSpent_def)
  have bud: "budget t2 = budget t" by (simp add: t2_def t1_def updateTotalSpent_def)
  have all: "\<forall>(e, a) \<in> set xs. budgetUtilization (updateTotalSpent a t2) = u"
    using Cons.prems(3) budgetUtilization_cong [OF bud] by auto
  obtain st r where sr: "checkBudgetAlerts cfg (emailService e) a (Some t) = (st, r)"
    by (cases "checkBudgetAlerts cfg (emailService e) a (Some t)")
  have step: "st = Some t2" "alerts_of r = snd (decide cfg u (alertsSent t))"
    using u sr by (auto simp add: checkBudgetAlerts_decide [OF Cons.prems(1,2)] Let_def
        t1_def [symmetric] t2_def f_def split: prod.splits)
  have f: "alertsSent t2 = f" by (simp add: t2_def)
  obtain st2 rs where rest:
    "evaluations cfg (map (\<lambda>(e, a). (emailService e, a)) xs) (Some t2) = (st2, rs)"
    by (cases "evaluations cfg (map (\<lambda>(e, a). (emailService e, a)) xs) (Some t2)")
  have rs: "rs = decide_all cfg u f (length xs)"
    using Cons.IH [OF act mem all] rest f by simp
  obtain f' ev where d: "decide cfg u (alertsSent t) = (f', ev)"
    by (cases "decide cfg u (alertsSent t)")
  show ?case using sr step rest rs d by (simp add: x f_def)
qed

lemma decide_all_below:
  "u < WARNING_THRESHOLD cfg \<Longrightarrow> WARNING_THRESHOLD cfg \<le> CRITICAL_THRESHOLD cfg \<Longrightarrow>
   decide_all cfg u f n = replicate n []"
  by (induction n arbitrary: f) (simp_all add: decide_def)

lemma decide_all_settled:
  "WARNING_THRESHOLD cfg \<le> u \<Longrightarrow> warning f \<Longrightarrow> u < CRITICAL_THRESHOLD cfg \<or> critical f \<Longrightarrow>
   decide_all cfg u f n = replicate n []"
  by (induction n arbitrary: f) (auto simp add: decide_def)

lemma take_padded: "take n (x # x # replicate n x) = replicate n x"
proof -
  have "x # x # replicate n x = replicate (Suc (Suc n)) x" by simp
  then show ?thesis by (simp only: take_replicate) simp
qed

lemma decide_all_constant:
  assumes "WARNING_THRESHOLD cfg \<le> CRITICAL_THRESHOLD cfg"
  shows "decide_all cfg u f n =
     take n
       ((if u \<ge> CRITICAL_THRESHOLD cfg \<and> \<not> critical f
         then [\<lparr>alert_kind = Critical, threshold = CRITICAL_THRESHOLD cfg, utilization = u\<rparr>]
         else if u \<ge> WARNING_THRESHOLD cfg \<and> \<not> warning f
         then [\<lparr>alert_kind = Warning, threshold = WARNING_THRESHOLD cfg, utilization = u\<rparr>]
         else [])
        # (if u \<ge> CRITICAL_THRESHOLD cfg \<and> \<not> critical f \<and> \<not> warning f
           then [\<lparr>alert_kind = Warning, threshold = WARNING_THRESHOLD cfg, utilization = u\<rparr>]
           else [])
        # replicate n [])"
proof (cases "u < WARNING_THRESHOLD cfg")
  case True
  with assms have "decide_all cfg u f n = replicate n []"
    by (simp add: decide_all_below)
  then show ?thesis using True assms by (simp add: take_padded)
next
  case False
  then have w: "WARNING_THRESHOLD cfg \<le> u" by simp
  show ?thesis
  proof (cases n)
    case 0
    then show ?thesis by simp
  next
    case (Suc m)
    show ?thesis
    proof (cases m)
      case 0
      with Suc show ?thesis by (simp add: decide_def)
    next
      case (Suc k)
      have rest: "\<And>g. warning g \<Longrightarrow> u < CRITICAL_THRESHOLD cfg \<or> critical g \<Longrightarrow>
          decide_all cfg u g k = replicate k []"
        using w by (simp add: decide_all_settled)
      show ?thesis
        unfolding \<open>n = Suc m\<close> \<open>m = Suc k\<close>
        using w assms by (auto simp add: decide_def rest take_padded)
    qed
  qed
qed

text \<open>
  C1 (as stated, refuted): at a utilization of 85 held over three evaluations of a team
  whose warning flag is already set, no alert is emitted; at a utilization of 100 held
  over three evaluations from clear flags, two alerts are emitted, the critical one and
  then a warning. In neither case is it exactly one.
\<close>

theorem constant_utilization_not_one_alert:
  "concat (snd (evaluations (BudgetService None None)
      [(emailService smtp_down, 85), (emailService smtp_down, 85), (emailService smtp_down, 85)]
      (Some (team0\<lparr>alertsSent := \<lparr>warning = True, critical = False\<rparr>\<rparr>)))) = []
   \<and> concat (snd (evaluations (BudgetService None None)
      [(emailService smtp_down, 100), (emailService smtp_down, 100),
       (emailService smtp_down, 100)]
      (Some team0))) =
    [\<lparr>alert_kind = Critical, threshold = 100, utilization = 100\<rparr>,
     \<lparr>alert_kind = Warning, threshold = 80, utilization = 100\<rparr>]"
  by (simp add: checkBudgetAlerts_def BudgetService_def emailService_def sendBudgetAlert_def
      team0_def smtp_down_def budgetUtilization_def updateTotalSpent_def Let_def
      double_100_pos utilization_85 utilization_100)

text \<open>
  C1 (amended): for an active team without a \<open>null\<close> member entry (so that the notifier
  call returns) whose utilization is the same \<open>u\<close> at each of N successive evaluations,
  with the warning threshold not above the critical one, the alerts are exactly these.
  The first evaluation emits the critical alert if \<open>u\<close> reaches the critical threshold
  and the critical flag is clear, otherwise the warning alert if \<open>u\<close> reaches the warning
  threshold and the warning flag is clear, otherwise nothing. The second evaluation
  emits a warning alert if \<open>u\<close> reaches the critical threshold and both flags were clear
  at the start, otherwise nothing. Every later evaluation emits nothing. So each level
  is alerted at most once and a held utilization does not re-notify, but the total is 0,
  1 or 2 events.
\<close>

theorem constant_utilization_alerts:
  assumes "WARNING_THRESHOLD cfg \<le> CRITICAL_THRESHOLD cfg"
    and "isActive t"
    and "None \<notin> set (members t)"
    and "\<forall>(e, a) \<in> set xs. budgetUtilization (updateTotalSpent a t) = u"
  shows "snd (evaluations cfg (map (\<lambda>(e, a). (emailService e, a)) xs) (Some t)) =
     take (length xs)
       ((if u \<ge> CRITICAL_THRESHOLD cfg \<and> \<not> critical (alertsSent t)
         then [\<lparr>alert_kind = Critical, threshold = CRITICAL_THRESHOLD cfg, utilization = u\<rparr>]
         else if u \<ge> WARNING_THRESHOLD cfg \<and> \<not> warning (alertsSent t)
         then [\<lparr>alert_kind = Warning, threshold = WARNING_THRESHOLD cfg, utilization = u\<rparr>]
         else [])
        # (if u \<ge> CRITICAL_THRESHOLD cfg \<and> \<not> critical (alertsSent t)
              \<and> \<not> warning (alertsSent t)
           then [\<lparr>alert_kind = Warning, threshold = WARNING_THRESHOLD cfg, utilization = u\<rparr>]
           else [])
        # replicate (length xs) [])"
  unfolding evaluations_decide_all [OF assms(2,3,4)]
  by (rule decide_all_constant [OF assms(1)])

theorem constant_utilization_alerts_witness:
  "snd (evaluations (BudgetService None None)
      [(emailService smtp_down, 85), (emailService smtp_down, 85), (emailService smtp_down, 85)]
      (Some team0)) =
    [[\<lparr>alert_kind = Warning, threshold = 80, utilization = 85\<rparr>], [], []]
   \<and> snd (evaluations (BudgetService None None)
      [(emailService smtp_down, 100), (emailService smtp_down, 100),
       (emailService smtp_down, 100)]
      (Some team0)) =
    [[\<lparr>alert_kind = Critical, threshold = 100, utilization = 100\<rparr>],
     [\<lparr>alert_kind = Warning, threshold = 80, utilization = 100\<rparr>], []]"
proof -
  have w: "WARNING_THRESHOLD (BudgetService None None)
      \<le> CRITICAL_THRESHOLD (BudgetService None None)"
    by (simp add: BudgetService_def)
  have act: "isActive team0" by (simp add: team0_def)
  have mem: "None \<notin> set (members team0)" by (simp add: team0_def)
  have u85: "\<forall>(e, a) \<in> set [(smtp_down, 85), (smtp_down, 85), (smtp_down, 85)].
      budgetUtilization (updateTotalSpent a team0) = 85"
    by (simp add: team0_def budgetUtilization_def updateTotalSpent_def
        double_100_pos utilization_85)
  have u100: "\<forall>(e, a) \<in> set [(smtp_down, 100), (smtp_down, 100), (smtp_down, 100)].
      budgetUtilization (updateTotalSpent a team0) = 100"
    by (simp add: team0_def budgetUtilization_def updateTotalSpent_def
        double_100_pos utilization_100)
  show ?thesis
    using constant_utilization_alerts [OF w act mem u85]
      constant_utilization_alerts [OF w act mem u100]
    by (simp add: BudgetService_def team0_def)
qed

text \<open>
  C2: from clear flags and with the default thresholds 80 and 100, the utilizations
  85, 90, 100, 70, 90 give a warning at 85, nothing at 90, a critical alert at 100,
  nothing at 70, where both flags are cleared, and a new warning at the final 90.
\<close>

theorem alert_hysteresis_sequence:
  "evaluations (BudgetService None None)
     [(emailService e1, 85), (emailService e2, 90), (emailService e3, 100),
      (emailService e4, 70)]
     (Some \<lparr>team_id = i, name = n, budget = 100, members = map Some ms, totalSpent = s,
            alertsSent = \<lparr>warning = False, critical = False\<rparr>, isActive = True\<rparr>)
   = (Some \<lparr>team_id = i, name = n, budget = 100, members = map Some ms, totalSpent = 70,
            alertsSent = \<lparr>warning = False, critical = False\<rparr>, isActive = True\<rparr>,
      [[\<lparr>alert_kind = Warning, threshold = 80, utilization = 85\<rparr>], [],
       [\<lparr>alert_kind = Critical, threshold = 100, utilization = 100\<rparr>], []])
   \<and> evaluations (BudgetService None None)
     [(emailService e1, 85), (emailService e2, 90), (emailService e3, 100),
      (emailService e4, 70), (emailService e5, 90)]
     (Some \<lparr>team_id = i, name = n, budget = 100, members = map Some ms, totalSpent = s,
            alertsSent = \<lparr>warning = False, critical = False\<rparr>, isActive = True\<rparr>)
   = (Some \<lparr>team_id = i, name = n, budget = 100, members = map Some ms, totalSpent = 90,
            alertsSent = \<lparr>warning = True, critical = False\<rparr>, isActive = True\<rparr>,
      [[\<lparr>alert_kind = Warning, threshold = 80, utilization = 85\<rparr>], [],
       [\<lparr>alert_kind = Critical, threshold = 100, utilization = 100\<rparr>], [],
       [\<lparr>alert_kind = Warning, threshold = 80, utilization = 90\<rparr>]])"
  by (simp add: checkBudgetAlerts_def BudgetService_def emailService_def sendBudgetAlert_def
      budgetUtilization_def updateTotalSpent_def Let_def
      double_100_pos utilization_85 utilization_90 utilization_100 utilization_70)

text \<open>
  C3 (as stated, refuted): the team has a \<open>null\<close> entry in its member list and the mail
  transport is configured. At a utilization of 85 from clear flags the evaluation
  decides on the warning alert, the promise of \<open>sendBudgetAlert\<close> rejects, and the team is
  persisted with the warning flag still clear and no alert reported.
\<close>

theorem alert_flag_clear_after_rejection:
  "sendBudgetAlert smtp_down (updateTotalSpent 85 team_null) Warning 85 = Inl ''TypeError''
   \<and> map_option alertsSent
        (fst (checkBudgetAlerts (BudgetService None None) (emailService smtp_down) 85
                (Some team_null)))
       = Some \<lparr>warning = False, critical = False\<rparr>
   \<and> alerts_of (snd (checkBudgetAlerts (BudgetService None None) (emailService smtp_down) 85
                (Some team_null))) = []"
  by (simp add: checkBudgetAlerts_def BudgetService_def emailService_def sendBudgetAlert_def
      team_null_def team0_def smtp_down_def budgetUtilization_def updateTotalSpent_def Let_def
      double_100_pos utilization_85)

lemma updateTotalSpent_fields:
  "alertsSent (updateTotalSpent a t) = alertsSent t"
  "members (updateTotalSpent a t) = members t"
  "isActive (updateTotalSpent a t) = isActive t"
  "budget (updateTotalSpent a t) = budget t"
  by (simp_all add: updateTotalSpent_def)

lemma checkBudgetAlerts_rejected:
  assumes "isActive t" "None \<in> set (members t)" "isBrevoConfigured e \<or> isBackupConfigured e"
  shows "checkBudgetAlerts cfg (emailService e) a (Some t) =
     (let t1 = updateTotalSpent a t; u = budgetUtilization t1;
          t2 = t1\<lparr>alertsSent := (if u < WARNING_THRESHOLD cfg
                                   then (alertsSent t)\<lparr>warning := False, critical := False\<rparr>
                                   else alertsSent t)\<rparr>
      in (Some t2,
          CheckOk \<lparr>sum_id = team_id t2, sum_name = name t2, sum_budget = budget t2,
                   sum_totalSpent = totalSpent t2, sum_budgetUtilization = u,
                   sum_budgetStatus = budgetStatus t2\<rparr> []))"
proof -
  have "\<And>k v. emailService e (updateTotalSpent a t) k v = Inl ''TypeError''"
    using assms(2,3) by (auto simp add: emailService_def sendBudgetAlert_def updateTotalSpent_def)
  moreover have "(updateTotalSpent a t)\<lparr>alertsSent := alertsSent t\<rparr> = updateTotalSpent a t"
    by (simp add: updateTotalSpent_def)
  ultimately show ?thesis
    using assms(1) by (simp add: checkBudgetAlerts_def Let_def updateTotalSpent_fields)
qed

lemma updateTotalSpent_twice: "updateTotalSpent a (updateTotalSpent a t) = updateTotalSpent a t"
  by (simp add: updateTotalSpent_def)

lemma decide_decided:
  assumes "WARNING_THRESHOLD cfg \<le> CRITICAL_THRESHOLD cfg"
    and "kind = (if u \<ge> CRITICAL_THRESHOLD cfg \<and> \<not> critical flags then Critical else Warning)"
    and "kind = Warning \<longrightarrow> u \<ge> WARNING_THRESHOLD cfg \<and> \<not> warning flags"
  shows "decide cfg u flags =
     ((case kind of Critical \<Rightarrow> flags\<lparr>critical := True\<rparr> | Warning \<Rightarrow> flags\<lparr>warning := True\<rparr>),
      [\<lparr>alert_kind = kind,
        threshold = (case kind of Critical \<Rightarrow> CRITICAL_THRESHOLD cfg
                     | Warning \<Rightarrow> WARNING_THRESHOLD cfg),
        utilization = u\<rparr>])"
  using assms by (cases kind) (auto simp add: decide_def split: if_splits)

lemma decide_flag_set:
  "(case kind of Critical \<Rightarrow> critical flags | Warning \<Rightarrow> warning flags) \<Longrightarrow>
   kind \<notin> alert_kind ` set (snd (decide cfg u flags))"
  by (cases kind) (auto simp add: decide_def split: if_splits)

text \<open>
  C3 (amended): an evaluation of an active team decides on an alert, the critical one
  or else the warning (warning threshold not above the critical one), and a mail service
  is configured. If the member list has no \<open>null\<close> entry and every transport fails,
  \<open>sendBudgetAlert\<close> resolves with \<open>success = False\<close>; the evaluation still reports the alert
  and persists the team with that alert's flag set, and the next evaluation at the same
  approved total emits no alert of that level, whatever the mail setup then is. If the
  member list has a \<open>null\<close> entry, the promise of \<open>sendBudgetAlert\<close> rejects; the evaluation
  reports no alert and persists the flags as they were, and the next evaluation does the
  same again.
\<close>

theorem delivery_failure_and_alert_flag:
  assumes "isActive t"
    and "WARNING_THRESHOLD cfg \<le> CRITICAL_THRESHOLD cfg"
    and "u = budgetUtilization (updateTotalSpent a t)"
    and "kind = (if u \<ge> CRITICAL_THRESHOLD cfg \<and> \<not> critical (alertsSent t)
                 then Critical else Warning)"
    and "kind = Warning \<longrightarrow> u \<ge> WARNING_THRESHOLD cfg \<and> \<not> warning (alertsSent t)"
    and "isBrevoConfigured e \<or> isBackupConfigured e"
  shows "(None \<notin> set (members t) \<and> \<not> (isBrevoConfigured e \<and> brevoDelivers e)
            \<and> \<not> backupDelivers e \<longrightarrow>
          sendBudgetAlert e (updateTotalSpent a t) kind u
            = Inr \<lparr>success = False, sent_by = None\<rparr>
        \<and> (\<exists>t1 s. checkBudgetAlerts cfg (emailService e) a (Some t) =
             (Some t1, CheckOk s
                [\<lparr>alert_kind = kind,
                  threshold = (case kind of Critical \<Rightarrow> CRITICAL_THRESHOLD cfg
                               | Warning \<Rightarrow> WARNING_THRESHOLD cfg),
                  utilization = u\<rparr>])
           \<and> (case kind of Critical \<Rightarrow> critical (alertsSent t1)
               | Warning \<Rightarrow> warning (alertsSent t1))
           \<and> kind \<notin> alert_kind ` set (alerts_of (snd
                  (checkBudgetAlerts cfg (emailService e2) a (Some t1))))))
   \<and> (None \<in> set (members t) \<longrightarrow>
          sendBudgetAlert e (updateTotalSpent a t) kind u = Inl ''TypeError''
        \<and> (\<exists>t1 s. checkBudgetAlerts cfg (emailService e) a (Some t) = (Some t1, CheckOk s [])
           \<and> alertsSent t1 = alertsSent t
           \<and> checkBudgetAlerts cfg (emailService e) a (Some t1) = (Some t1, CheckOk s [])))"
proof -
  define t0 where "t0 = updateTotalSpent a t"
  have u: "budgetUtilization t0 = u" using assms(3) by (simp add: t0_def)
  have uw: "WARNING_THRESHOLD cfg \<le> u" using assms(2,4,5) by (auto split: if_splits)
  have resolved: "None \<notin> set (members t) \<and> \<not> (isBrevoConfigured e \<and> brevoDelivers e)
            \<and> \<not> backupDelivers e \<longrightarrow>
          sendBudgetAlert e (updateTotalSpent a t) kind u
            = Inr \<lparr>success = False, sent_by = None\<rparr>
        \<and> (\<exists>t1 s. checkBudgetAlerts cfg (emailService e) a (Some t) =
             (Some t1, CheckOk s
                [\<lparr>alert_kind = kind,
                  threshold = (case kind of Critical \<Rightarrow> CRITICAL_THRESHOLD cfg
                               | Warning \<Rightarrow> WARNING_THRESHOLD cfg),
                  utilization = u\<rparr>])
           \<and> (case kind of Critical \<Rightarrow> critical (alertsSent t1)
               | Warning \<Rightarrow> warning (alertsSent t1))
           \<and> kind \<notin> alert_kind ` set (alerts_of (snd
                  (checkBudgetAlerts cfg (emailService e2) a (Some t1)))))"
  proof (intro impI)
    assume h: "None \<notin> set (members t) \<and> \<not> (isBrevoConfigured e \<and> brevoDelivers e)
            \<and> \<not> backupDelivers e"
    then have mem: "None \<notin> set (members t)" by simp
    have mem0: "None \<notin> set (members t0)" using mem by (simp add: t0_def updateTotalSpent_def)
    have fail: "sendBudgetAlert e (updateTotalSpent a t) kind u
        = Inr \<lparr>success = False, sent_by = None\<rparr>"
      using h assms(6) mem0 by (auto simp add: sendBudgetAlert_resolves t0_def)
    define flags1 where "flags1 = (case kind of Critical \<Rightarrow> (alertsSent t)\<lparr>critical := True\<rparr>
        | Warning \<Rightarrow> (alertsSent t)\<lparr>warning := True\<rparr>)"
    define t1 where "t1 = t0\<lparr>alertsSent := flags1\<rparr>"
    define s where "s = \<lparr>sum_id = team_id t1, sum_name = name t1, sum_budget = budget t1,
        sum_totalSpent = totalSpent t1, sum_budgetUtilization = u,
        sum_budgetStatus = budgetStatus t1\<rparr>"
    have d1: "decide cfg u (alertsSent t) =
       (flags1, [\<lparr>alert_kind = kind,
                  threshold = (case kind of Critical \<Rightarrow> CRITICAL_THRESHOLD cfg
                               | Warning \<Rightarrow> WARNING_THRESHOLD cfg),
                  utilization = u\<rparr>])"
      unfolding flags1_def by (rule decide_decided [OF assms(2,4,5)])
    have first: "checkBudgetAlerts cfg (emailService e) a (Some t) =
       (Some t1, CheckOk s
                [\<lparr>alert_kind = kind,
                  threshold = (case kind of Critical \<Rightarrow> CRITICAL_THRESHOLD cfg
                               | Warning \<Rightarrow> WARNING_THRESHOLD cfg),
                  utilization = u\<rparr>])"
      using u d1
      by (simp add: checkBudgetAlerts_decide [OF assms(1) mem] Let_def t0_def [symmetric]
          t1_def s_def)
    have flag: "case kind of Critical \<Rightarrow> critical (alertsSent t1)
        | Warning \<Rightarrow> warning (alertsSent t1)"
      by (cases kind) (simp_all add: t1_def flags1_def)
    have act1: "isActive t1" using assms(1) by (simp add: t1_def t0_def updateTotalSpent_def)
    have mem1: "None \<notin> set (members t1)" using mem0 by (simp add: t1_def)
    have "budget t1 = budget t" by (simp add: t1_def t0_def updateTotalSpent_def)
    then have u1: "budgetUtilization (updateTotalSpent a t1) = u"
      using budgetUtilization_cong [of t1 t a] u by (simp add: t0_def)
    have "alerts_of (snd (checkBudgetAlerts cfg (emailService e2) a (Some t1)))
        = snd (decide cfg u (alertsSent t1))"
      using u1 by (simp add: checkBudgetAlerts_decide [OF act1 mem1] Let_def split: prod.splits)
    then have again: "kind \<notin> alert_kind ` set (alerts_of (snd
        (checkBudgetAlerts cfg (emailService e2) a (Some t1))))"
      using decide_flag_set [OF flag] by simp
    show "sendBudgetAlert e (updateTotalSpent a t) kind u
            = Inr \<lparr>success = False, sent_by = None\<rparr>
        \<and> (\<exists>t1 s. checkBudgetAlerts cfg (emailService e) a (Some t) =
             (Some t1, CheckOk s
                [\<lparr>alert_kind = kind,
                  threshold = (case kind of Critical \<Rightarrow> CRITICAL_THRESHOLD cfg
                               | Warning \<Rightarrow> WARNING_THRESHOLD cfg),
                  utilization = u\<rparr>])
           \<and> (case kind of Critical \<Rightarrow> critical (alertsSent t1)
               | Warning \<Rightarrow> warning (alertsSent t1))
           \<and> kind \<notin> alert_kind ` set (alerts_of (snd
                  (checkBudgetAlerts cfg (emailService e2) a (Some t1)))))"
      using fail first flag again by blast
  qed
  have rejected: "None \<in> set (members t) \<longrightarrow>
          sendBudgetAlert e (updateTotalSpent a t) kind u = Inl ''TypeError''
        \<and> (\<exists>t1 s. checkBudgetAlerts cfg (emailService e) a (Some t) = (Some t1, CheckOk s [])
           \<and> alertsSent t1 = alertsSent t
           \<and> checkBudgetAlerts cfg (emailService e) a (Some t1) = (Some t1, CheckOk s []))"
  proof (intro impI)
    assume mem: "None \<in> set (members t)"
    have rej: "sendBudgetAlert e (updateTotalSpent a t) kind u = Inl ''TypeError''"
      using mem assms(6) by (auto simp add: sendBudgetAlert_def updateTotalSpent_def)
    define s where "s = \<lparr>sum_id = team_id t0, sum_name = name t0, sum_budget = budget t0,
        sum_totalSpent = totalSpent t0, sum_budgetUtilization = u,
        sum_budgetStatus = budgetStatus t0\<rparr>"
    have keep: "t0\<lparr>alertsSent := alertsSent t\<rparr> = t0"
      by (simp add: t0_def updateTotalSpent_def)
    have first: "checkBudgetAlerts cfg (emailService e) a (Some t) = (Some t0, CheckOk s [])"
      using u uw keep
      by (simp add: checkBudgetAlerts_rejected [OF assms(1) mem assms(6)] Let_def
          t0_def [symmetric] s_def)
    have flags: "alertsSent t0 = alertsSent t" by (simp add: t0_def updateTotalSpent_def)
    have act0: "isActive t0" using assms(1) by (simp add: t0_def updateTotalSpent_def)
    have mem0: "None \<in> set (members t0)" using mem by (simp add: t0_def updateTotalSpent_def)
    have same: "updateTotalSpent a t0 = t0" by (simp add: t0_def updateTotalSpent_twice)
    have keep0: "t0\<lparr>alertsSent := alertsSent t0\<rparr> = t0" by simp
    have second: "checkBudgetAlerts cfg (emailService e) a (Some t0) = (Some t0, CheckOk s [])"
      using u uw keep0
      by (simp add: checkBudgetAlerts_rejected [OF act0 mem0 assms(6)] Let_def same s_def)
    show "sendBudgetAlert e (updateTotalSpent a t) kind u = Inl ''TypeError''
        \<and> (\<exists>t1 s. checkBudgetAlerts cfg (emailService e) a (Some t) = (Some t1, CheckOk s [])
           \<and> alertsSent t1 = alertsSent t
           \<and> checkBudgetAlerts cfg (emailService e) a (Some t1) = (Some t1, CheckOk s []))"
      using rej first flags second by blast
  qed
  show ?thesis using resolved rejected by blast
qed

theorem delivery_failure_and_alert_flag_witness:
  "sendBudgetAlert smtp_down (updateTotalSpent 85 team0) Warning 85
      = Inr \<lparr>success = False, sent_by = None\<rparr>
   \<and> (\<exists>t1 s. checkBudgetAlerts (BudgetService None None) (emailService smtp_down) 85
                 (Some team0) =
           (Some t1, CheckOk s [\<lparr>alert_kind = Warning, threshold = 80, utilization = 85\<rparr>])
         \<and> warning (alertsSent t1)
         \<and> Warning \<notin> alert_kind ` set (alerts_of (snd
                (checkBudgetAlerts (BudgetService None None) (emailService smtp_down) 85
                   (Some t1)))))
   \<and> sendBudgetAlert smtp_down (updateTotalSpent 85 team_null) Warning 85 = Inl ''TypeError''
   \<and> (\<exists>t1 s. checkBudgetAlerts (BudgetService None None) (emailService smtp_down) 85
                 (Some team_null) = (Some t1, CheckOk s [])
         \<and> alertsSent t1 = alertsSent team_null)"
proof -
  let ?cfg = "BudgetService None None"
  have w: "WARNING_THRESHOLD ?cfg \<le> CRITICAL_THRESHOLD ?cfg" by (simp add: BudgetService_def)
  have act: "isActive team0" "isActive team_null" by (simp_all add: team_null_def team0_def)
  have u: "85 = budgetUtilization (updateTotalSpent 85 team0)"
    "85 = budgetUtilization (updateTotalSpent 85 team_null)"
    by (simp_all add: team_null_def team0_def budgetUtilization_def updateTotalSpent_def
        double_100_pos utilization_85)
  have k: "Warning = (if 85 \<ge> CRITICAL_THRESHOLD ?cfg \<and> \<not> critical (alertsSent team0)
                 then Critical else Warning)"
    "Warning = (if 85 \<ge> CRITICAL_THRESHOLD ?cfg \<and> \<not> critical (alertsSent team_null)
                 then Critical else Warning)"
    by (simp_all add: BudgetService_def)
  have d: "Warning = Warning \<longrightarrow> 85 \<ge> WARNING_THRESHOLD ?cfg \<and> \<not> warning (alertsSent team0)"
    "Warning = Warning \<longrightarrow> 85 \<ge> WARNING_THRESHOLD ?cfg \<and> \<not> warning (alertsSent team_null)"
    by (simp_all add: BudgetService_def team_null_def team0_def)
  have c: "isBrevoConfigured smtp_down \<or> isBackupConfigured smtp_down"
    by (simp add: smtp_down_def)
  have m: "None \<notin> set (members team0) \<and> \<not> (isBrevoConfigured smtp_down \<and> brevoDelivers smtp_down)
      \<and> \<not> backupDelivers smtp_down"
    by (simp add: team0_def smtp_down_def)
  have n: "None \<in> set (members team_null)" by (simp add: team_null_def)
  show ?thesis
    using delivery_failure_and_alert_flag [OF act(1) w u(1) k(1) d(1) c, of smtp_down]
      delivery_failure_and_alert_flag [OF act(2) w u(2) k(2) d(2) c, of smtp_down] m n
    by (simp add: BudgetService_def) blast
qed

section \<open>Properties of the text similarity\<close>

lemma init_rows_upto:
  "fold (\<lambda>i matrix. arr_set matrix i [i]) [0..<k] [] = map (\<lambda>i. [i]) [0..<k]"
  by (induction k) (simp_all add: arr_set_def)

lemma init_rows_eq: "init_rows n = map (\<lambda>i. [i]) [0..<Suc n]"
  unfolding init_rows_def by (rule init_rows_upto)

lemma init_cols_upto:
  assumes "matrix \<noteq> []" "matrix ! 0 = [0]"
  shows "fold (\<lambda>j matrix. matrix[0 := arr_set (matrix ! 0) j j]) [0..<Suc k] matrix
         = matrix[0 := [0..<Suc k]]"
proof (induction k)
  case 0
  show ?case using assms by (simp add: arr_set_def)
next
  case (Suc k)
  have "[0..<Suc (Suc k)] = [0..<Suc k] @ [Suc k]" by simp
  then show ?case using Suc assms
    by (simp only: fold_append o_apply fold.simps) (simp add: arr_set_def)
qed

lemma map_dist_0: "map (edit_dist str1 str2 0) xs = xs"
  by (induction xs) simp_all

lemma dist_0_right: "edit_dist str1 str2 i 0 = i"
  by (cases i) simp_all

lemma filled_init:
  "filled str1 str2 0 (length str1) (init_cols (length str1) (init_rows (length str2)))"
proof -
  let ?n = "length str2"
  have ne: "init_rows ?n \<noteq> []" and z: "init_rows ?n ! 0 = [0]"
    by (simp_all add: init_rows_eq upt_rec [of 0])
  have eq: "init_cols (length str1) (init_rows ?n) = (init_rows ?n)[0 := [0..<Suc (length str1)]]"
    unfolding init_cols_def by (rule init_cols_upto [OF ne z])
  have nth: "\<And>i. i \<le> ?n \<Longrightarrow> init_rows ?n ! i = [i]"
    unfolding init_rows_eq by (simp add: nth_map_upt del: upt_Suc)
  show ?thesis
    unfolding filled_def eq
    by (simp add: map_dist_0 nth init_rows_eq del: upt_Suc)
qed


lemma filled_cell:
  assumes "filled str1 str2 k j matrix" "0 < k" "k \<le> length str2" "j < length str1"
  shows "filled str1 str2 k (Suc j) (fill_cell str1 str2 k (Suc j) matrix)"
proof -
  obtain k' where k: "k = Suc k'" using assms(2) by (cases k) auto
  have len: "length matrix = Suc (length str2)"
    and above: "\<And>i. i < k \<Longrightarrow> matrix ! i = map (edit_dist str1 str2 i) [0..<Suc (length str1)]"
    and row: "matrix ! k = map (edit_dist str1 str2 k) [0..<Suc j]"
    and below: "\<And>i. k < i \<Longrightarrow> i \<le> length str2 \<Longrightarrow> matrix ! i = [i]"
    using assms(1) unfolding filled_def by auto
  have up: "matrix ! k' ! Suc j = edit_dist str1 str2 k' (Suc j)"
    and diag: "matrix ! k' ! j = edit_dist str1 str2 k' j"
    using above [of k'] assms(4) k by (simp_all add: nth_map_upt del: upt_Suc)
  have left: "matrix ! k ! j = edit_dist str1 str2 k j"
    using row by (simp add: nth_map_upt del: upt_Suc)
  have lrow: "length (matrix ! k) = Suc j" using row by simp
  have cell: "fill_cell str1 str2 k (Suc j) matrix
      = matrix[k := matrix ! k @ [edit_dist str1 str2 k (Suc j)]]"
    using up diag left lrow
    by (simp add: fill_cell_def arr_set_def k Let_def)
  have new: "matrix ! k @ [edit_dist str1 str2 k (Suc j)] = map (edit_dist str1 str2 k) [0..<Suc (Suc j)]"
    using row by simp
  show ?thesis
    unfolding filled_def cell new
    using len above below assms(3) by (simp del: upt_Suc)
qed

lemma filled_row:
  assumes "filled str1 str2 k 0 matrix" "0 < k" "k \<le> length str2" "j \<le> length str1"
  shows "filled str1 str2 k j (fold (fill_cell str1 str2 k) [1..<Suc j] matrix)"
  using assms(4)
proof (induction j)
  case 0
  then show ?case using assms(1) by simp
next
  case (Suc j)
  then have "filled str1 str2 k j (fold (fill_cell str1 str2 k) [1..<Suc j] matrix)" by simp
  from filled_cell [OF this assms(2,3)] Suc.prems
  have "filled str1 str2 k (Suc j)
     (fill_cell str1 str2 k (Suc j) (fold (fill_cell str1 str2 k) [1..<Suc j] matrix))" by simp
  moreover have "[1..<Suc (Suc j)] = [1..<Suc j] @ [Suc j]" by simp
  ultimately show ?case by (simp only: fold_append o_apply fold.simps id_apply)
qed

lemma filled_next:
  assumes "filled str1 str2 k (length str1) matrix" "k < length str2"
  shows "filled str1 str2 (Suc k) 0 matrix"
proof -
  have "\<And>i. i < Suc k \<Longrightarrow> matrix ! i = map (edit_dist str1 str2 i) [0..<Suc (length str1)]"
    using assms(1) unfolding filled_def by (auto simp add: less_Suc_eq simp del: upt_Suc)
  moreover have "matrix ! Suc k = map (edit_dist str1 str2 (Suc k)) [0..<Suc 0]"
    using assms unfolding filled_def by simp
  ultimately show ?thesis
    using assms unfolding filled_def by (simp del: upt_Suc)
qed

lemma filled_rows:
  assumes "filled str1 str2 0 (length str1) matrix" "k \<le> length str2"
  shows "filled str1 str2 k (length str1)
     (fold (\<lambda>i matrix. fold (fill_cell str1 str2 i) [1..<Suc (length str1)] matrix)
        [1..<Suc k] matrix)"
  using assms(2)
proof (induction k)
  case 0
  then show ?case using assms(1) by simp
next
  case (Suc k)
  let ?M = "fold (\<lambda>i matrix. fold (fill_cell str1 str2 i) [1..<Suc (length str1)] matrix)
        [1..<Suc k] matrix"
  have "filled str1 str2 k (length str1) ?M" using Suc by simp
  then have "filled str1 str2 (Suc k) 0 ?M" using Suc.prems by (simp add: filled_next)
  then have "filled str1 str2 (Suc k) (length str1)
      (fold (fill_cell str1 str2 (Suc k)) [1..<Suc (length str1)] ?M)"
    using Suc.prems by (intro filled_row) simp_all
  moreover have "[1..<Suc (Suc k)] = [1..<Suc k] @ [Suc k]" by simp
  ultimately show ?case by (simp only: fold_append o_apply fold.simps id_apply)
qed

lemma matrix_distance:
  "fill_matrix str1 str2 (init_cols (length str1) (init_rows (length str2)))
     ! length str2 ! length str1 = edit_dist str1 str2 (length str2) (length str1)"
proof -
  have "filled str1 str2 (length str2) (length str1)
     (fill_matrix str1 str2 (init_cols (length str1) (init_rows (length str2))))"
    unfolding fill_matrix_def by (rule filled_rows [OF filled_init]) simp
  then show ?thesis
    unfolding filled_def by (simp add: nth_map_upt del: upt_Suc)
qed

lemma similarity_dist:
  "calculateTextSimilarity str1 str2 =
     (if str2 = [] then (if str1 = [] then 1 else 0)
      else if str1 = [] then 0
      else js_sub 1 (js_div (rat_of_nat (edit_dist str1 str2 (length str2) (length str1)))
                            (rat_of_nat (max (length str1) (length str2)))))"
  by (simp add: calculateTextSimilarity_def matrix_distance Let_def)

lemma dist_sym: "edit_dist str1 str2 i j = edit_dist str2 str1 j i"
proof (induction str1 str2 i j rule: edit_dist.induct)
  case (1 str1 str2 j)
  then show ?case by (simp add: dist_0_right)
next
  case (2 str1 str2 i)
  then show ?case by simp
next
  case (3 str1 str2 i j)
  then show ?case by (simp add: min.commute min.left_commute eq_commute)
qed

lemma dist_le_max: "edit_dist str1 str2 i j \<le> max i j"
proof (induction str1 str2 i j rule: edit_dist.induct)
  case (3 str1 str2 i j)
  have "edit_dist str1 str2 (Suc i) (Suc j) \<le> edit_dist str1 str2 i j + 1"
    by (simp add: min_def)
  also have "\<dots> \<le> max i j + 1" using 3 by simp
  finally show ?case by simp
qed simp_all

lemma dist_same: "edit_dist str str i i = 0"
  by (induction i) simp_all

text \<open>
  C6: the text similarity is symmetric, is 1 on identical strings, and lies between 0
  and 1; the bounds hold for all strings, the empty ones included.
\<close>

theorem similarity_symmetric_bounded:
  "calculateTextSimilarity a b = calculateTextSimilarity b a
   \<and> calculateTextSimilarity a a = 1
   \<and> 0 \<le> calculateTextSimilarity a b \<and> calculateTextSimilarity a b \<le> 1"
proof -
  have sym: "calculateTextSimilarity a b = calculateTextSimilarity b a"
    by (simp add: similarity_dist dist_sym [of a b] max.commute)
  have same: "calculateTextSimilarity a a = 1"
    by (simp add: similarity_dist dist_same js_sub_def js_div_def double_0 double_1)
  have le: "edit_dist a b (length b) (length a) \<le> max (length a) (length b)"
    using dist_le_max [of a b "length b" "length a"] by (simp add: max.commute)
  have bounds: "0 \<le> calculateTextSimilarity a b \<and> calculateTextSimilarity a b \<le> 1"
  proof (cases "a = [] \<or> b = []")
    case True
    then show ?thesis by (auto simp add: similarity_dist)
  next
    case False
    let ?q = "rat_of_nat (edit_dist a b (length b) (length a))
        / rat_of_nat (max (length a) (length b))"
    have pos: "0 < rat_of_nat (max (length a) (length b))"
      using False by (cases a) simp_all
    have "rat_of_nat (edit_dist a b (length b) (length a))
        \<le> rat_of_nat (max (length a) (length b))"
      using le by (simp only: of_nat_le_iff)
    then have q1: "?q \<le> 1" using pos by (simp add: divide_le_eq_1)
    have q0: "0 \<le> ?q" by simp
    have d0: "0 \<le> double ?q" using q0 by (rule double_nonneg)
    have d1: "double ?q \<le> 1" using q0 q1 by (rule double_le_one)
    have r0: "0 \<le> 1 - double ?q" using d1 by simp
    have r1: "1 - double ?q \<le> 1" using d0 by simp
    have "0 \<le> double (1 - double ?q)" using r0 by (rule double_nonneg)
    moreover have "double (1 - double ?q) \<le> 1" using r0 r1 by (rule double_le_one)
    ultimately show ?thesis
      using False by (simp add: similarity_dist js_sub_def js_div_def)
  qed
  show ?thesis using sym same bounds by simp
qed

text \<open>
  C10: the similarity of two empty strings is 1, and the similarity of a non-empty
  string and the empty string, in either order, is 0.
\<close>

theorem similarity_empty_strings:
  "calculateTextSimilarity ([] :: 'a list) [] = 1
   \<and> calculateTextSimilarity (x # xs) [] = 0
   \<and> calculateTextSimilarity [] (x # xs) = 0"
  by (simp add: calculateTextSimilarity_def)
section \<open>Properties of the detection of suspicious expenses\<close>

lemma quartile_index_3: "nat \<lfloor>rat_of_nat n * (75 / 100)\<rfloor> = 3 * n div 4"
proof -
  have "rat_of_nat n * (75 / 100) = rat_of_nat (3 * n) / rat_of_nat 4" by simp
  then have "\<lfloor>rat_of_nat n * (75 / 100)\<rfloor> = int (3 * n div 4)"
    by (simp only: floor_divide_of_nat_eq)
  then show ?thesis by simp
qed

lemma quartile_index_1: "nat \<lfloor>rat_of_nat n * (25 / 100)\<rfloor> = n div 4"
proof -
  have "rat_of_nat n * (25 / 100) = rat_of_nat n / rat_of_nat 4" by simp
  then have "\<lfloor>rat_of_nat n * (25 / 100)\<rfloor> = int (n div 4)"
    by (simp only: floor_divide_of_nat_eq)
  then show ?thesis by simp
qed

lemma check_outliers_eq:
  "check_outliers expenses =
     (if length expenses > 5 then
        let amounts = sort (map (\<lambda>e. double (amount e)) expenses);
            q1 = amounts ! (length expenses div 4);
            q3 = amounts ! (3 * length expenses div 4)
        in map (\<lambda>expense. \<lparr>f_type = high_amount_outlier, f_expenses = [expense_id expense],
                             f_confidence = double (7 / 10)\<rparr>)
               (filter (\<lambda>expense. double (amount expense) > js_add q3 (js_mul (3 / 2) (js_sub q3 q1)))
                  expenses)
      else [])"
  unfolding check_outliers_def length_sort length_map quartile_index_3 quartile_index_1
  by (simp add: Let_def)

text \<open>
  C7 (as stated, refuted): of the six amounts 0.10, 0.10, 0.10, 1.22, 1.22, 2.90 the
  quartiles by index are \<open>Q1 = 0.10\<close> and \<open>Q3 = 1.22\<close>, and 2.90 equals
  \<open>Q3 + 1.5 * (Q3 - Q1)\<close>, so it is not strictly greater; nor is the number stored for
  2.90 greater than that bound taken exactly on the stored numbers. The expense of 2.90
  is flagged all the same: the source's threshold, computed in doubles, is the double
  just below the one stored for 2.90.
\<close>

theorem outlier_at_exact_threshold:
  "check_outliers at_threshold =
     [\<lparr>f_type = high_amount_outlier, f_expenses = [6], f_confidence = double (7 / 10)\<rparr>]
   \<and> map amount at_threshold = [1 / 10, 1 / 10, 1 / 10, 122 / 100, 122 / 100, 29 / 10]
   \<and> sort (map amount at_threshold) ! (6 div 4) = 1 / 10
   \<and> sort (map amount at_threshold) ! (3 * 6 div 4) = 122 / 100
   \<and> 29 / 10 = 122 / 100 + 15 / 10 * (122 / 100 - 1 / (10 :: rat))
   \<and> double (29 / 10) \<le> double (122 / 100) + 15 / 10 * (double (122 / 100) - double (1 / 10))
   \<and> js_add (double (122 / 100)) (js_mul (15 / 10) (js_sub (double (122 / 100)) (double (1 / 10))))
       < double (29 / 10)"
  by code_simp

text \<open>
  C7 (amended): the outlier check runs only for more than 5 expenses; it then flags
  exactly the expenses whose stored amount is strictly greater than the double
  \<open>Q3 + 1.5 * (Q3 - Q1)\<close>, each operation rounded to a double, where \<open>Q1\<close> and \<open>Q3\<close> are
  the sorted stored amounts at the indices \<open>floor (n / 4)\<close> and \<open>floor (3 * n / 4)\<close>. For the
  amounts 10, 12, 11, 13, 9, 500 the expense of 500 is flagged and no other; for the
  first five of them nothing is flagged; of the amounts 0.1, 0.1, 0.1, 0.7, 0.7, 1.6
  the expense of 1.6 is flagged.
\<close>

theorem outlier_detection:
  "(length expenses \<le> 5 \<longrightarrow> check_outliers expenses = [])
   \<and> (length expenses > 5 \<longrightarrow>
        check_outliers expenses =
          (let amounts = sort (map (\<lambda>e. double (amount e)) expenses);
               q1 = amounts ! (length expenses div 4);
               q3 = amounts ! (3 * length expenses div 4)
           in map (\<lambda>expense. \<lparr>f_type = high_amount_outlier,
                                f_expenses = [expense_id expense],
                                f_confidence = double (7 / 10)\<rparr>)
                  (filter (\<lambda>expense. double (amount expense)
                                        > js_add q3 (js_mul (3 / 2) (js_sub q3 q1)))
                     expenses)))
   \<and> detectSuspiciousExpenses toLowerCase (Inr six_expenses) =
        Detected 6 1 [\<lparr>f_type = high_amount_outlier, f_expenses = [6],
                       f_confidence = double (7 / 10)\<rparr>]
   \<and> detectSuspiciousExpenses toLowerCase (Inr (take 5 six_expenses)) = Detected 5 0 []
   \<and> detectSuspiciousExpenses toLowerCase (Inr near_threshold) =
        Detected 6 1 [\<lparr>f_type = high_amount_outlier, f_expenses = [6],
                       f_confidence = double (7 / 10)\<rparr>]"
proof -
  have a: "detectSuspiciousExpenses toLowerCase (Inr six_expenses) =
        Detected 6 1 [\<lparr>f_type = high_amount_outlier, f_expenses = [6],
                       f_confidence = double (7 / 10)\<rparr>]"
    by code_simp
  have b: "detectSuspiciousExpenses toLowerCase (Inr (take 5 six_expenses)) = Detected 5 0 []"
    by code_simp
  have c: "detectSuspiciousExpenses toLowerCase (Inr near_threshold) =
        Detected 6 1 [\<lparr>f_type = high_amount_outlier, f_expenses = [6],
                       f_confidence = double (7 / 10)\<rparr>]"
    by code_simp
  have d: "length expenses > 5 \<longrightarrow>
        check_outliers expenses =
          (let amounts = sort (map (\<lambda>e. double (amount e)) expenses);
               q1 = amounts ! (length expenses div 4);
               q3 = amounts ! (3 * length expenses div 4)
           in map (\<lambda>expense. \<lparr>f_type = high_amount_outlier,
                                f_expenses = [expense_id expense],
                                f_confidence = double (7 / 10)\<rparr>)
                  (filter (\<lambda>expense. double (amount expense)
                                        > js_add q3 (js_mul (3 / 2) (js_sub q3 q1)))
                     expenses))"
    by (simp add: check_outliers_eq)
  have e: "length expenses \<le> 5 \<longrightarrow> check_outliers expenses = []"
    by (simp add: check_outliers_eq)
  show ?thesis using a b c d e by (simp only: simp_thms)
qed

theorem outlier_detection_witness:
  "length six_expenses > 5
   \<and> check_outliers six_expenses =
       [\<lparr>f_type = high_amount_outlier, f_expenses = [6], f_confidence = double (7 / 10)\<rparr>]
   \<and> length (take 5 six_expenses) \<le> 5 \<and> check_outliers (take 5 six_expenses) = []"
proof -
  have len: "length six_expenses > 5" by (simp add: six_expenses_def)
  have len5: "length (take 5 six_expenses) \<le> 5" by simp
  have rhs: "(let amounts = sort (map (\<lambda>e. double (amount e)) six_expenses);
               q1 = amounts ! (length six_expenses div 4);
               q3 = amounts ! (3 * length six_expenses div 4)
           in map (\<lambda>expense. \<lparr>f_type = high_amount_outlier,
                                f_expenses = [expense_id expense],
                                f_confidence = double (7 / 10)\<rparr>)
                  (filter (\<lambda>expense. double (amount expense)
                                        > js_add q3 (js_mul (3 / 2) (js_sub q3 q1)))
                     six_expenses))
        = [\<lparr>f_type = high_amount_outlier, f_expenses = [6], f_confidence = double (7 / 10)\<rparr>]"
    by code_simp
  have thm6: "check_outliers six_expenses =
          (let amounts = sort (map (\<lambda>e. double (amount e)) six_expenses);
               q1 = amounts ! (length six_expenses div 4);
               q3 = amounts ! (3 * length six_expenses div 4)
           in map (\<lambda>expense. \<lparr>f_type = high_amount_outlier,
                                f_expenses = [expense_id expense],
                                f_confidence = double (7 / 10)\<rparr>)
                  (filter (\<lambda>expense. double (amount expense)
                                        > js_add q3 (js_mul (3 / 2) (js_sub q3 q1)))
                     six_expenses))"
    using outlier_detection [of six_expenses] len by blast
  have thm5: "check_outliers (take 5 six_expenses) = []"
    using outlier_detection [of "take 5 six_expenses"] len5 by blast
  show ?thesis using len len5 thm6 thm5 rhs by (simp only: simp_thms)
qed

lemma set_check_after:
  "f \<in> set (check_after lower exp1 rest) \<longleftrightarrow> (\<exists>j < length rest. f \<in> set (check_pair lower exp1 (rest ! j)))"
proof (induction rest)
  case Nil
  then show ?case by simp
next
  case (Cons exp2 rest)
  show ?case
  proof
    assume "f \<in> set (check_after lower exp1 (exp2 # rest))"
    then consider "f \<in> set (check_pair lower exp1 exp2)" | "f \<in> set (check_after lower exp1 rest)"
      by auto
    then show "\<exists>j < length (exp2 # rest). f \<in> set (check_pair lower exp1 ((exp2 # rest) ! j))"
    proof cases
      case 1
      then have "0 < length (exp2 # rest) \<and> f \<in> set (check_pair lower exp1 ((exp2 # rest) ! 0))"
        by simp
      then show ?thesis by blast
    next
      case 2
      then obtain j where "j < length rest" "f \<in> set (check_pair lower exp1 (rest ! j))"
        using Cons.IH by blast
      then have "Suc j < length (exp2 # rest)
          \<and> f \<in> set (check_pair lower exp1 ((exp2 # rest) ! Suc j))" by simp
      then show ?thesis by blast
    qed
  next
    assume "\<exists>j < length (exp2 # rest). f \<in> set (check_pair lower exp1 ((exp2 # rest) ! j))"
    then obtain j where j: "j < length (exp2 # rest)"
      "f \<in> set (check_pair lower exp1 ((exp2 # rest) ! j))" by blast
    show "f \<in> set (check_after lower exp1 (exp2 # rest))"
    proof (cases j)
      case 0
      with j show ?thesis by simp
    next
      case (Suc k)
      with j have "k < length rest" "f \<in> set (check_pair lower exp1 (rest ! k))" by simp_all
      then have "f \<in> set (check_after lower exp1 rest)" using Cons.IH by blast
      then show ?thesis by simp
    qed
  qed
qed

lemma set_check_duplicates:
  "f \<in> set (check_duplicates lower expenses) \<longleftrightarrow>
     (\<exists>i j. i < j \<and> j < length expenses \<and> f \<in> set (check_pair lower (expenses ! i) (expenses ! j)))"
proof (induction expenses)
  case Nil
  then show ?case by simp
next
  case (Cons exp1 rest)
  show ?case
  proof
    assume "f \<in> set (check_duplicates lower (exp1 # rest))"
    then consider "f \<in> set (check_after lower exp1 rest)" | "f \<in> set (check_duplicates lower rest)"
      by auto
    then show "\<exists>i j. i < j \<and> j < length (exp1 # rest)
        \<and> f \<in> set (check_pair lower ((exp1 # rest) ! i) ((exp1 # rest) ! j))"
    proof cases
      case 1
      then obtain j where "j < length rest" "f \<in> set (check_pair lower exp1 (rest ! j))"
        using set_check_after by blast
      then have "0 < Suc j \<and> Suc j < length (exp1 # rest)
        \<and> f \<in> set (check_pair lower ((exp1 # rest) ! 0) ((exp1 # rest) ! Suc j))" by simp
      then show ?thesis by blast
    next
      case 2
      then obtain i j where "i < j" "j < length rest"
        "f \<in> set (check_pair lower (rest ! i) (rest ! j))" using Cons.IH by blast
      then have "Suc i < Suc j \<and> Suc j < length (exp1 # rest)
        \<and> f \<in> set (check_pair lower ((exp1 # rest) ! Suc i) ((exp1 # rest) ! Suc j))" by simp
      then show ?thesis by blast
    qed
  next
    assume "\<exists>i j. i < j \<and> j < length (exp1 # rest)
        \<and> f \<in> set (check_pair lower ((exp1 # rest) ! i) ((exp1 # rest) ! j))"
    then obtain i j where ij: "i < j" "j < length (exp1 # rest)"
      "f \<in> set (check_pair lower ((exp1 # rest) ! i) ((exp1 # rest) ! j))" by blast
    from ij(1) obtain j' where j': "j = Suc j'" by (cases j) auto
    show "f \<in> set (check_duplicates lower (exp1 # rest))"
    proof (cases i)
      case 0
      with ij j' have "j' < length rest" "f \<in> set (check_pair lower exp1 (rest ! j'))" by simp_all
      then have "f \<in> set (check_after lower exp1 rest)" using set_check_after by blast
      then show ?thesis by simp
    next
      case (Suc i')
      with ij j' have "i' < j'" "j' < length rest"
        "f \<in> set (check_pair lower (rest ! i') (rest ! j'))" by simp_all
      then have "f \<in> set (check_duplicates lower rest)" using Cons.IH by blast
      then show ?thesis by simp
    qed
  qed
qed

lemma double_7_days: "double 604800000 = 604800000" by code_simp

lemma double_7_days_1: "double 604800001 = 604800001" by code_simp

lemma double_7: "double 7 = 7" by code_simp

lemma over_7: "7 < double (604800001 / 86400000)" by code_simp

text \<open>
  The quotient \<open>timeDiff\<close>, computed in doubles, is at most 7 exactly when the timestamps
  are at most 7 days apart.
\<close>

lemma within_7_days:
  "js_div \<bar>js_sub (rat_of_int d1) (rat_of_int d2)\<bar> (1000 * 60 * 60 * 24) \<le> 7
     \<longleftrightarrow> \<bar>d1 - d2\<bar> \<le> 7 * 86400000"
proof -
  define z where "z = \<bar>d1 - d2\<bar>"
  have "\<bar>js_sub (rat_of_int d1) (rat_of_int d2)\<bar> = double \<bar>rat_of_int d1 - rat_of_int d2\<bar>"
    by (simp only: js_sub_def double_abs)
  also have "\<bar>rat_of_int d1 - rat_of_int d2\<bar> = rat_of_int z" by (simp add: z_def)
  finally have "js_div \<bar>js_sub (rat_of_int d1) (rat_of_int d2)\<bar> 86400000
      = double (double (rat_of_int z) / 86400000)" by (simp only: js_div_def)
  then have t: "js_div \<bar>js_sub (rat_of_int d1) (rat_of_int d2)\<bar> (1000 * 60 * 60 * 24)
      = double (double (rat_of_int z) / 86400000)" by simp
  show ?thesis unfolding t z_def [symmetric]
  proof
    assume a: "double (double (rat_of_int z) / 86400000) \<le> 7"
    show "z \<le> 7 * 86400000"
    proof (rule ccontr)
      assume "\<not> z \<le> 7 * 86400000"
      then have "604800001 \<le> z" by simp
      then have "rat_of_int 604800001 \<le> rat_of_int z" by (simp only: of_int_le_iff)
      then have "double 604800001 \<le> double (rat_of_int z)" by (intro double_mono) simp
      then have "604800001 / 86400000 \<le> double (rat_of_int z) / 86400000"
        by (simp add: double_7_days_1)
      then have "double (604800001 / 86400000) \<le> double (double (rat_of_int z) / 86400000)"
        by (rule double_mono)
      then show False using a over_7 by simp
    qed
  next
    assume "z \<le> 7 * 86400000"
    then have "z \<le> 604800000" by simp
    then have "rat_of_int z \<le> rat_of_int 604800000" by (simp only: of_int_le_iff)
    then have "double (rat_of_int z) \<le> double 604800000" by (intro double_mono) simp
    then have "double (rat_of_int z) / 86400000 \<le> 7" by (simp add: double_7_days)
    then have "double (double (rat_of_int z) / 86400000) \<le> double 7" by (rule double_mono)
    then show "double (double (rat_of_int z) / 86400000) \<le> 7" by (simp add: double_7)
  qed
qed

lemma set_check_pair:
  "f \<in> set (check_pair lower exp1 exp2) \<longleftrightarrow>
     \<bar>js_sub (double (amount exp1)) (double (amount exp2))\<bar> < double (1 / 100)
     \<and> \<bar>date exp1 - date exp2\<bar> \<le> 7 * 86400000
     \<and> calculateTextSimilarity (lower (description exp1)) (lower (description exp2))
         > double (7 / 10)
     \<and> f = \<lparr>f_type = potential_duplicate,
             f_expenses = [expense_id exp1, expense_id exp2],
             f_confidence = calculateTextSimilarity (lower (description exp1))
                              (lower (description exp2))\<rparr>"
  unfolding check_pair_def Let_def within_7_days by auto

text \<open>
  C8 (as stated, refuted): two taxi rides of 50.00 and 50.01 on the same day, with the
  same description, differ by 0.01 in amount, which is not less than 0.01; they are
  recorded as a duplicate all the same, because the number stored for 50.01 is below it
  and the difference of the stored numbers is below the number stored for 0.01.
\<close>

theorem duplicate_one_cent_apart:
  "check_duplicates toLowerCase [taxi1, taxi2] =
     [\<lparr>f_type = potential_duplicate, f_expenses = [1, 2], f_confidence = 1\<rparr>]
   \<and> \<bar>amount taxi1 - amount taxi2\<bar> = 1 / 100
   \<and> date taxi1 = date taxi2 \<and> description taxi1 = description taxi2
   \<and> double (amount taxi2) < amount taxi2
   \<and> \<bar>js_sub (double (amount taxi1)) (double (amount taxi2))\<bar> < double (1 / 100)"
  by code_simp

text \<open>
  C8 (amended): a duplicate finding is recorded for a pair of expenses at positions
  \<open>i < j\<close> of the window exactly when the difference of their stored amounts, computed
  in doubles, is less in absolute value than the double of 0.01, their timestamps are
  at most 7 days apart and the similarity of their lower-cased descriptions, a double,
  exceeds the double of 0.7; the finding names the two expenses and has that similarity
  as its confidence. This holds for every lower-casing function. Two expenses of 50.00
  dated two days apart, described as "Team lunch" and "Team Lunch ", are flagged, with
  the double of 10/11 as confidence.
\<close>

theorem duplicate_detection:
  "(f \<in> set (check_duplicates lower expenses) \<longleftrightarrow>
     (\<exists>i j. i < j \<and> j < length expenses
        \<and> \<bar>js_sub (double (amount (expenses ! i))) (double (amount (expenses ! j)))\<bar>
            < double (1 / 100)
        \<and> \<bar>date (expenses ! i) - date (expenses ! j)\<bar> \<le> 7 * 86400000
        \<and> calculateTextSimilarity (lower (description (expenses ! i)))
             (lower (description (expenses ! j))) > double (7 / 10)
        \<and> f = \<lparr>f_type = potential_duplicate,
                f_expenses = [expense_id (expenses ! i), expense_id (expenses ! j)],
                f_confidence = calculateTextSimilarity (lower (description (expenses ! i)))
                                 (lower (description (expenses ! j)))\<rparr>))
   \<and> detectSuspiciousExpenses toLowerCase (Inr [lunch1, lunch2]) =
       Detected 2 1 [\<lparr>f_type = potential_duplicate, f_expenses = [1, 2],
                      f_confidence = double (10 / 11)\<rparr>]"
proof -
  have ex: "detectSuspiciousExpenses toLowerCase (Inr [lunch1, lunch2]) =
       Detected 2 1 [\<lparr>f_type = potential_duplicate, f_expenses = [1, 2],
                      f_confidence = double (10 / 11)\<rparr>]"
    by code_simp
  show ?thesis
    unfolding set_check_duplicates set_check_pair using ex by simp
qed

section \<open>Properties of the category suggestion\<close>

lemma match_confidence_mono: "k \<le> l \<Longrightarrow> match_confidence k \<le> match_confidence l"
  unfolding match_confidence_def by (intro min.mono) (simp_all add: mult_right_mono)

lemma match_confidence_0: "match_confidence 0 = 3 / 10"
  by (simp add: match_confidence_def)

lemma match_confidence_pos: "0 < k \<Longrightarrow> 1 / 2 \<le> match_confidence k"
proof -
  assume "0 < k"
  then have "match_confidence 1 \<le> match_confidence k"
    by (intro match_confidence_mono) simp
  then show ?thesis by (simp add: match_confidence_def)
qed

lemma match_confidence_le: "match_confidence k \<le> 8 / 10"
  unfolding match_confidence_def by (rule min.cobounded1)

lemma match_confidence_3: "3 \<le> k \<Longrightarrow> match_confidence k = 8 / 10"
proof -
  assume "3 \<le> k"
  then have "rat_of_nat 3 \<le> rat_of_nat k" by (simp only: of_nat_le_iff)
  then have "8 / 10 \<le> 3 / 10 + rat_of_nat k * (2 / 10)" by simp
  then show ?thesis by (simp add: match_confidence_def)
qed

text \<open>
  The confidence the source computes in doubles is the double of the decimal confidence,
  and the doubles of 0.1, 0.5, 0.7 and 0.8 are ordered as these decimals are.
\<close>

lemma confidence_in_doubles:
  "min (double (8 / 10)) (js_add (double (3 / 10)) (js_mul (rat_of_nat k) (double (2 / 10))))
     = double (match_confidence k)"
proof -
  consider "k = 0" | "k = 1" | "k = 2" | "3 \<le> k" by fastforce
  then show ?thesis
  proof cases
    case 1
    have "min (double (8 / 10)) (js_add (double (3 / 10)) (js_mul (rat_of_nat 0) (double (2 / 10))))
        = double (match_confidence 0)" by code_simp
    then show ?thesis using 1 by simp
  next
    case 2
    have "min (double (8 / 10)) (js_add (double (3 / 10)) (js_mul (rat_of_nat 1) (double (2 / 10))))
        = double (match_confidence 1)" by code_simp
    then show ?thesis using 2 by simp
  next
    case 3
    have "min (double (8 / 10)) (js_add (double (3 / 10)) (js_mul (rat_of_nat 2) (double (2 / 10))))
        = double (match_confidence 2)" by code_simp
    then show ?thesis using 3 by simp
  next
    case 4
    have d: "0 \<le> double (2 / 10)" by (intro double_nonneg) simp
    have "rat_of_nat 3 \<le> rat_of_nat k" using 4 by (simp only: of_nat_le_iff)
    then have "3 * double (2 / 10) \<le> rat_of_nat k * double (2 / 10)"
      using d by (simp add: mult_right_mono)
    then have "double (3 * double (2 / 10)) \<le> js_mul (rat_of_nat k) (double (2 / 10))"
      unfolding js_mul_def by (rule double_mono)
    then have "double (3 / 10) + double (3 * double (2 / 10))
        \<le> double (3 / 10) + js_mul (rat_of_nat k) (double (2 / 10))" by simp
    then have "double (double (3 / 10) + double (3 * double (2 / 10)))
        \<le> js_add (double (3 / 10)) (js_mul (rat_of_nat k) (double (2 / 10)))"
      unfolding js_add_def by (rule double_mono)
    moreover have "double (8 / 10) \<le> double (double (3 / 10) + double (3 * double (2 / 10)))"
      by code_simp
    ultimately have "double (8 / 10)
        \<le> js_add (double (3 / 10)) (js_mul (rat_of_nat k) (double (2 / 10)))" by simp
    then show ?thesis by (simp add: match_confidence_3 [OF 4])
  qed
qed

lemma confidences_ordered_in_doubles:
  "double (1 / 10) < double (1 / 2) \<and> double (1 / 2) < double (7 / 10)
   \<and> double (7 / 10) < double (8 / 10)"
  by code_simp

lemma score_category_eq:
  "score_category (toLowerCase d) entry best =
     (if 0 < matches_of d entry \<and> confidence best < match_confidence (matches_of d entry)
      then \<lparr>category = fst entry, confidence = match_confidence (matches_of d entry),
            reasoning = ''Matched keywords: '' @
              join '', '' (filter (\<lambda>keyword. str_includes (toLowerCase d) keyword) (snd entry))\<rparr>
      else best)"
  by (simp add: score_category_def matches_of_def match_confidence_def Let_def)

text \<open>The state of the scan after a prefix of the table.\<close>

lemma scan_invariant:
  fixes d :: string and table :: "(string \<times> string list) list"
  defines "init \<equiv> \<lparr>category = ''other'', confidence = 1 / 10,
                     reasoning = ''No clear keywords found''\<rparr>"
  defines "r \<equiv> fold (score_category (toLowerCase d)) table init"
  shows "((\<forall>j < length table. matches_of d (table ! j) = 0) \<and> r = init)
       \<or> (\<exists>i < length table.
             0 < matches_of d (table ! i)
           \<and> category r = fst (table ! i)
           \<and> confidence r = match_confidence (matches_of d (table ! i))
           \<and> (\<forall>j < length table.
                 match_confidence (matches_of d (table ! j)) \<le> confidence r)
           \<and> (\<forall>j < i. match_confidence (matches_of d (table ! j)) < confidence r))"
  unfolding r_def
proof (induction table rule: rev_induct)
  case Nil
  then show ?case by simp
next
  case (snoc x xs)
  let ?r = "fold (score_category (toLowerCase d)) xs init"
  let ?m = "\<lambda>e. matches_of d e"
  let ?c = "\<lambda>e. match_confidence (matches_of d e)"
  have step: "fold (score_category (toLowerCase d)) (xs @ [x]) init
      = score_category (toLowerCase d) x ?r" by simp
  have nth_old: "\<And>j. j < length xs \<Longrightarrow> (xs @ [x]) ! j = xs ! j"
    by (simp add: nth_append)
  have nth_new: "(xs @ [x]) ! length xs = x" by simp
  have all_m: "(\<forall>j < length (xs @ [x]). ?m ((xs @ [x]) ! j) = 0)
      \<longleftrightarrow> (\<forall>j < length xs. ?m (xs ! j) = 0) \<and> ?m x = 0"
    by (auto simp add: nth_append less_Suc_eq)
  have all_c: "\<And>b. (\<forall>j < length (xs @ [x]). ?c ((xs @ [x]) ! j) \<le> b)
      \<longleftrightarrow> (\<forall>j < length xs. ?c (xs ! j) \<le> b) \<and> ?c x \<le> b"
    by (auto simp add: nth_append less_Suc_eq)
  from snoc.IH consider
    (none) "\<forall>j < length xs. ?m (xs ! j) = 0" "?r = init"
  | (some) i where "i < length xs" "0 < ?m (xs ! i)" "category ?r = fst (xs ! i)"
      "confidence ?r = ?c (xs ! i)"
      "\<forall>j < length xs. ?c (xs ! j) \<le> confidence ?r"
      "\<forall>j < i. ?c (xs ! j) < confidence ?r"
    by blast
  then show ?case
  proof cases
    case none
    show ?thesis
    proof (cases "0 < ?m x")
      case False
      then have "score_category (toLowerCase d) x ?r = init"
        using none by (simp add: score_category_eq)
      moreover have "\<forall>j < length (xs @ [x]). ?m ((xs @ [x]) ! j) = 0"
        unfolding all_m using none False by simp
      ultimately show ?thesis unfolding step by blast
    next
      case True
      then have big: "1 / 2 \<le> ?c x" by (rule match_confidence_pos)
      then have new: "score_category (toLowerCase d) x ?r =
          \<lparr>category = fst x, confidence = ?c x,
           reasoning = ''Matched keywords: '' @
             join '', '' (filter (\<lambda>keyword. str_includes (toLowerCase d) keyword) (snd x))\<rparr>"
        using True none by (simp add: score_category_eq init_def)
      have low: "\<forall>j < length xs. ?c (xs ! j) < ?c x"
        using none(1) big by (simp add: match_confidence_0)
      have "length xs < length (xs @ [x])
          \<and> 0 < ?m ((xs @ [x]) ! length xs)
          \<and> category (score_category (toLowerCase d) x ?r) = fst ((xs @ [x]) ! length xs)
          \<and> confidence (score_category (toLowerCase d) x ?r) = ?c ((xs @ [x]) ! length xs)
          \<and> (\<forall>j < length (xs @ [x]).
                ?c ((xs @ [x]) ! j) \<le> confidence (score_category (toLowerCase d) x ?r))
          \<and> (\<forall>j < length xs.
                ?c ((xs @ [x]) ! j) < confidence (score_category (toLowerCase d) x ?r))"
        unfolding all_c nth_new new using True low by (auto simp add: nth_old less_imp_le)
      then show ?thesis unfolding step by blast
    qed
  next
    case some
    show ?thesis
    proof (cases "0 < ?m x \<and> confidence ?r < ?c x")
      case False
      then have keep: "score_category (toLowerCase d) x ?r = ?r"
        by (auto simp add: score_category_eq)
      have "?c x \<le> confidence ?r"
      proof (cases "0 < ?m x")
        case True
        with False show ?thesis by simp
      next
        case False
        then have "?c x = 3 / 10" by (simp add: match_confidence_0)
        moreover have "1 / 2 \<le> confidence ?r"
          using match_confidence_pos [OF some(2)] some(4) by (simp only:)
        ultimately show ?thesis by simp
      qed
      then have "i < length (xs @ [x])
          \<and> 0 < ?m ((xs @ [x]) ! i)
          \<and> category ?r = fst ((xs @ [x]) ! i)
          \<and> confidence ?r = ?c ((xs @ [x]) ! i)
          \<and> (\<forall>j < length (xs @ [x]). ?c ((xs @ [x]) ! j) \<le> confidence ?r)
          \<and> (\<forall>j < i. ?c ((xs @ [x]) ! j) < confidence ?r)"
        unfolding all_c using some by (simp add: nth_old)
      then show ?thesis unfolding step keep by blast
    next
      case True
      then have new: "score_category (toLowerCase d) x ?r =
          \<lparr>category = fst x, confidence = ?c x,
           reasoning = ''Matched keywords: '' @
             join '', '' (filter (\<lambda>keyword. str_includes (toLowerCase d) keyword) (snd x))\<rparr>"
        by (simp add: score_category_eq)
      have low: "\<forall>j < length xs. ?c (xs ! j) < ?c x"
        using some(5) True by (meson le_less_trans)
      have "length xs < length (xs @ [x])
          \<and> 0 < ?m ((xs @ [x]) ! length xs)
          \<and> category (score_category (toLowerCase d) x ?r) = fst ((xs @ [x]) ! length xs)
          \<and> confidence (score_category (toLowerCase d) x ?r) = ?c ((xs @ [x]) ! length xs)
          \<and> (\<forall>j < length (xs @ [x]).
                ?c ((xs @ [x]) ! j) \<le> confidence (score_category (toLowerCase d) x ?r))
          \<and> (\<forall>j < length xs.
                ?c ((xs @ [x]) ! j) < confidence (score_category (toLowerCase d) x ?r))"
        unfolding all_c nth_new new using True low by (auto simp add: nth_old less_imp_le)
      then show ?thesis unfolding step by blast
    qed
  qed
qed


lemma str_includes_sublist: "str_includes s keyword \<longleftrightarrow> sublist keyword s"
  by (induction s) (simp_all add: sublist_Cons_right)

text \<open>
  C9: when no keyword of any category occurs in the lower-cased description the
  fallback scorer returns \<open>other\<close> with confidence 0.1. Otherwise it returns a category
  with at least one match whose confidence \<open>min 0.8 (0.3 + matches * 0.2)\<close> is the highest
  of all categories, and every category declared before it has a strictly lower
  confidence: ties go to the category declared first. With no classifier configured,
  "Flight to client site" gives \<open>travel\<close> with a confidence between 0.3 and 0.8.
\<close>

theorem fallback_keyword_scorer:
  "((\<forall>entry \<in> set categoryKeywords. matches_of d entry = 0) \<longrightarrow>
      fallbackCategorySuggestion d =
        \<lparr>category = ''other'', confidence = 1 / 10, reasoning = ''No clear keywords found''\<rparr>)
   \<and> ((\<exists>entry \<in> set categoryKeywords. 0 < matches_of d entry) \<longrightarrow>
      (\<exists>i < length categoryKeywords.
          0 < matches_of d (categoryKeywords ! i)
        \<and> category (fallbackCategorySuggestion d) = fst (categoryKeywords ! i)
        \<and> confidence (fallbackCategorySuggestion d)
            = match_confidence (matches_of d (categoryKeywords ! i))
        \<and> (\<forall>j < length categoryKeywords.
              match_confidence (matches_of d (categoryKeywords ! j))
                \<le> confidence (fallbackCategorySuggestion d))
        \<and> (\<forall>j < i. match_confidence (matches_of d (categoryKeywords ! j))
                < confidence (fallbackCategorySuggestion d))))
   \<and> category (suggestCategory None ''Flight to client site'') = ''travel''
   \<and> 3 / 10 \<le> confidence (suggestCategory None ''Flight to client site'')
   \<and> confidence (suggestCategory None ''Flight to client site'') \<le> 8 / 10"
proof -
  let ?init = "\<lparr>category = ''other'', confidence = 1 / 10,
                 reasoning = ''No clear keywords found''\<rparr>"
  have r: "fallbackCategorySuggestion d
      = fold (score_category (toLowerCase d)) categoryKeywords ?init"
    by (simp add: fallbackCategorySuggestion_def fallback_with_def)
  note inv = scan_invariant [of categoryKeywords d, folded r]
  have none: "(\<forall>entry \<in> set categoryKeywords. matches_of d entry = 0) \<longrightarrow>
      fallbackCategorySuggestion d = ?init"
  proof
    assume z: "\<forall>entry \<in> set categoryKeywords. matches_of d entry = 0"
    then have "\<not> (\<exists>i < length categoryKeywords. 0 < matches_of d (categoryKeywords ! i))"
      by simp
    with inv show "fallbackCategorySuggestion d = ?init" by blast
  qed
  have some: "(\<exists>entry \<in> set categoryKeywords. 0 < matches_of d entry) \<longrightarrow>
      (\<exists>i < length categoryKeywords.
          0 < matches_of d (categoryKeywords ! i)
        \<and> category (fallbackCategorySuggestion d) = fst (categoryKeywords ! i)
        \<and> confidence (fallbackCategorySuggestion d)
            = match_confidence (matches_of d (categoryKeywords ! i))
        \<and> (\<forall>j < length categoryKeywords.
              match_confidence (matches_of d (categoryKeywords ! j))
                \<le> confidence (fallbackCategorySuggestion d))
        \<and> (\<forall>j < i. match_confidence (matches_of d (categoryKeywords ! j))
                < confidence (fallbackCategorySuggestion d)))"
  proof
    assume "\<exists>entry \<in> set categoryKeywords. 0 < matches_of d entry"
    then obtain j where "j < length categoryKeywords" "0 < matches_of d (categoryKeywords ! j)"
      by (auto simp add: in_set_conv_nth)
    then have "\<not> (\<forall>j < length categoryKeywords. matches_of d (categoryKeywords ! j) = 0)"
      by auto
    with inv show "\<exists>i < length categoryKeywords.
          0 < matches_of d (categoryKeywords ! i)
        \<and> category (fallbackCategorySuggestion d) = fst (categoryKeywords ! i)
        \<and> confidence (fallbackCategorySuggestion d)
            = match_confidence (matches_of d (categoryKeywords ! i))
        \<and> (\<forall>j < length categoryKeywords.
              match_confidence (matches_of d (categoryKeywords ! j))
                \<le> confidence (fallbackCategorySuggestion d))
        \<and> (\<forall>j < i. match_confidence (matches_of d (categoryKeywords ! j))
                < confidence (fallbackCategorySuggestion d))"
      by blast
  qed
  have ex: "suggestCategory None ''Flight to client site'' =
      \<lparr>category = ''travel'', confidence = 1 / 2, reasoning = ''Matched keywords: flight''\<rparr>"
    by code_simp
  show ?thesis using none some by (simp add: ex)
qed

theorem fallback_keyword_scorer_witness:
  "fallbackCategorySuggestion ''Parking'' =
        \<lparr>category = ''other'', confidence = 1 / 10, reasoning = ''No clear keywords found''\<rparr>
   \<and> category (fallbackCategorySuggestion ''Flight to client site'')
        \<in> fst ` set categoryKeywords
   \<and> 1 / 2 \<le> confidence (fallbackCategorySuggestion ''Flight to client site'')"
proof -
  have a: "\<forall>entry \<in> set categoryKeywords. matches_of ''Parking'' entry = 0"
    by code_simp
  have b: "\<exists>entry \<in> set categoryKeywords. 0 < matches_of ''Flight to client site'' entry"
    by code_simp
  have other: "fallbackCategorySuggestion ''Parking'' =
        \<lparr>category = ''other'', confidence = 1 / 10, reasoning = ''No clear keywords found''\<rparr>"
    using fallback_keyword_scorer [of "''Parking''"] a by blast
  obtain i where i: "i < length categoryKeywords"
    "0 < matches_of ''Flight to client site'' (categoryKeywords ! i)"
    "category (fallbackCategorySuggestion ''Flight to client site'') = fst (categoryKeywords ! i)"
    "confidence (fallbackCategorySuggestion ''Flight to client site'')
       = match_confidence (matches_of ''Flight to client site'' (categoryKeywords ! i))"
    using fallback_keyword_scorer [of "''Flight to client site''"] b by blast
  have "category (fallbackCategorySuggestion ''Flight to client site'')
        \<in> fst ` set categoryKeywords"
    using i(1,3) by (metis imageI nth_mem)
  moreover have "1 / 2 \<le> confidence (fallbackCategorySuggestion ''Flight to client site'')"
    using match_confidence_pos [OF i(2)] i(4) by (simp only:)
  ultimately show ?thesis using other by blast
qed
section \<open>Properties of the budget forecast\<close>















end
